theory Spec2Isabelle
  imports Complex_Main "HOL-Library.Log_Nat" "HOL-Library.Word"
begin

section \<open>Undefined behaviour as a value\<close>

text \<open>
  The C++ of ECS.h and TransformComponent.h has no exceptions; what it has is undefined
  behaviour: an index past the end of a \<open>std::array\<close> or \<open>std::bitset\<close>, a read through a
  pointer whose object is gone or was never written, a float-to-int conversion whose value
  does not fit. Every such place is a branch of the model that returns \<open>Inl\<close> of a fault.
\<close>

datatype fault =
    OutOfBounds
  | InvalidPointer
  | IndeterminateValue
  | FloatToIntRange

type_synonym 'a result = "fault + 'a"

section \<open>The type \<open>float\<close>\<close>

text \<open>
  \<open>float\<close> is IEEE-754 binary32. A value is a real number of the form \<open>m * 2^e\<close> with
  \<open>\<bar>m\<bar> < 2^24\<close> and \<open>-149 \<le> e \<le> 104\<close>, an infinity (the flag is the sign bit: True is
  negative), or a NaN. The two zeros are one value here, as they are for \<open>==\<close>; NaN payloads
  are not kept. Every arithmetic operation computes the exact result and rounds it to the
  nearest value, ties to the even mantissa; no operation keeps more precision than the
  type has. The type \<open>float\<close> below is wider than binary32, since it holds every real:
  \<open>is_binary32\<close> says which of its values are values of the machine type.
\<close>

datatype float = Finite real | Infinity bool | NaN

definition pow2 :: "int \<Rightarrow> real" where
  "pow2 e = (if 0 \<le> e then 2 ^ nat e else 1 / 2 ^ nat (- e))"

text \<open>\<open>ilog2 a\<close> is the exponent \<open>k\<close> with \<open>2^k \<le> a < 2^(k+1)\<close>, for \<open>a > 0\<close>.\<close>

definition ilog2 :: "real \<Rightarrow> int" where
  "ilog2 a = (if 1 \<le> a then int (floorlog 2 (nat \<lfloor>a\<rfloor>)) - 1
              else - int (floorlog 2 (nat (\<lceil>1 / a\<rceil> - 1))))"

definition round_half_even :: "real \<Rightarrow> int" where
  "round_half_even q =
     (let f = \<lfloor>q\<rfloor>; d = q - of_int f in
      if d < 1 / 2 then f else if 1 / 2 < d then f + 1 else if even f then f else f + 1)"

text \<open>
  Rounding to binary32: the unit in the last place is \<open>2^e\<close> with \<open>e\<close> the exponent of the
  value less 23, and never below the subnormal \<open>2^-149\<close>; a result of magnitude \<open>2^128\<close>
  or more overflows to an infinity.
\<close>

definition round_f32 :: "real \<Rightarrow> float" where
  "round_f32 r =
     (if r = 0 then Finite 0
      else
        let e = max (- 149) (ilog2 \<bar>r\<bar> - 23);
            v = of_int (round_half_even (r / pow2 e)) * pow2 e
        in if 2 ^ 128 \<le> \<bar>v\<bar> then Infinity (r < 0) else Finite v)"

text \<open>The values of the type: the real numbers that rounding leaves alone.\<close>

definition is_binary32 :: "float \<Rightarrow> bool" where
  "is_binary32 f = (case f of Finite r \<Rightarrow> round_f32 r = Finite r | _ \<Rightarrow> True)"

fun fadd :: "float \<Rightarrow> float \<Rightarrow> float" where
  "fadd NaN _ = NaN"
| "fadd _ NaN = NaN"
| "fadd (Finite a) (Finite b) = round_f32 (a + b)"
| "fadd (Finite a) (Infinity t) = Infinity t"
| "fadd (Infinity s) (Finite b) = Infinity s"
| "fadd (Infinity s) (Infinity t) = (if s = t then Infinity s else NaN)"

fun fmul :: "float \<Rightarrow> float \<Rightarrow> float" where
  "fmul NaN _ = NaN"
| "fmul _ NaN = NaN"
| "fmul (Finite a) (Finite b) = round_f32 (a * b)"
| "fmul (Finite a) (Infinity t) = (if a = 0 then NaN else Infinity (t \<noteq> (a < 0)))"
| "fmul (Infinity s) (Finite b) = (if b = 0 then NaN else Infinity (s \<noteq> (b < 0)))"
| "fmul (Infinity s) (Infinity t) = Infinity (s \<noteq> t)"

text \<open>
  Division by a zero gives an infinity whose sign is that of the dividend alone, since the
  sign of a zero is not kept. \<open>TransformComponent::update\<close> divides only by a norm that it
  has compared unequal to 0.
\<close>

fun fdiv :: "float \<Rightarrow> float \<Rightarrow> float" where
  "fdiv NaN _ = NaN"
| "fdiv _ NaN = NaN"
| "fdiv (Finite a) (Finite b) =
     (if b = 0 then (if a = 0 then NaN else Infinity (a < 0)) else round_f32 (a / b))"
| "fdiv (Finite a) (Infinity t) = Finite 0"
| "fdiv (Infinity s) (Finite b) = Infinity (s \<noteq> (b < 0))"
| "fdiv (Infinity s) (Infinity t) = NaN"

text \<open>The operator \<open>!=\<close>: a NaN is unequal to everything, itself included.\<close>

fun fne :: "float \<Rightarrow> float \<Rightarrow> bool" where
  "fne NaN _ = True"
| "fne _ NaN = True"
| "fne a b = (a \<noteq> b)"

text \<open>The conversion of an \<open>int\<close> (32 bits) to \<open>float\<close>.\<close>

definition float_of_int :: "int \<Rightarrow> float" where
  "float_of_int n = round_f32 (of_int n)"

text \<open>
  \<open>static_cast<int>\<close> of a float drops the fraction; the behaviour is undefined when what
  is left is not a value of \<open>int\<close>.
\<close>

definition trunc :: "real \<Rightarrow> int" where
  "trunc r = (if 0 \<le> r then \<lfloor>r\<rfloor> else \<lceil>r\<rceil>)"

definition static_cast_int :: "float \<Rightarrow> int result" where
  "static_cast_int f =
     (case f of
        Finite r \<Rightarrow>
          (if - (2 ^ 31) \<le> trunc r \<and> trunc r \<le> 2 ^ 31 - 1 then Inr (trunc r)
           else Inl FloatToIntRange)
      | _ \<Rightarrow> Inl FloatToIntRange)"

section \<open>Vector2D and the constants of the game layer\<close>

text \<open>
  Modelled from the spec: Vector2D.h and Constants.h are not among the sources. What
  TransformComponent.h shows of a \<open>Vector2D\<close> is two members \<open>x\<close> and \<open>y\<close>, which take the
  \<open>float\<close> arguments of the constructors, and two member functions, \<open>Zero()\<close> and
  \<open>Norm()\<close>. The members are floats here, and \<open>Zero()\<close> is what its name and its use say:
  it sets both members to 0. What the sources do not determine is a parameter of the
  model: the value of \<open>TILE_SIZE\<close>, the vector a default-constructed \<open>Vector2D\<close> holds, and
  the function \<open>Norm()\<close>, which the comment at its call site gives as
  \<open>std::sqrt(pow(velocity.x, 2) + pow(velocity.y, 2))\<close>.
\<close>

record Vector2D =
  vec_x :: float
  vec_y :: float

definition Zero :: "Vector2D \<Rightarrow> Vector2D" where
  "Zero v = v\<lparr>vec_x := Finite 0, vec_y := Finite 0\<rparr>"

record externals =
  TILE_SIZE :: int
  Vector2D_default :: Vector2D
  Norm :: "Vector2D \<Rightarrow> float"

section \<open>TransformComponent\<close>

record TransformComponent =
  position :: Vector2D
  velocity :: Vector2D
  facing :: Vector2D
  height :: int
  width :: int
  scale :: float
  speed :: float
  speedLo :: float
  speedHi :: float

text \<open>The default member initialisers, which run before the body of every constructor.\<close>

definition TransformComponent_members :: "externals \<Rightarrow> TransformComponent" where
  "TransformComponent_members X =
     \<lparr>position = Vector2D_default X, velocity = Vector2D_default X,
      facing = Vector2D_default X,
      height = TILE_SIZE X, width = TILE_SIZE X, scale = float_of_int 1,
      speed = float_of_int 3, speedLo = float_of_int 0, speedHi = float_of_int 0\<rparr>"

text \<open>The five constructors, by their parameter lists.\<close>

datatype TransformComponent_args =
    TC_default
  | TC_scale float
  | TC_xy float float
  | TC_xyhws float float int int float
  | TC_xydhws float float Vector2D int int float

fun TransformComponent_new :: "externals \<Rightarrow> TransformComponent_args \<Rightarrow> TransformComponent" where
  "TransformComponent_new X TC_default =
     (let t = TransformComponent_members X in t\<lparr>position := Zero (position t)\<rparr>)"
| "TransformComponent_new X (TC_scale sc) =
     (let t = TransformComponent_members X in t\<lparr>position := Zero (position t), scale := sc\<rparr>)"
| "TransformComponent_new X (TC_xy x y) =
     (let t = TransformComponent_members X
      in t\<lparr>position := (position t)\<lparr>vec_x := x, vec_y := y\<rparr>\<rparr>)"
| "TransformComponent_new X (TC_xyhws x y h w sc) =
     (let t = TransformComponent_members X
      in t\<lparr>position := (position t)\<lparr>vec_x := x, vec_y := y\<rparr>,
            height := h, width := w, scale := sc\<rparr>)"
| "TransformComponent_new X (TC_xydhws x y direction h w sc) =
     (let t = TransformComponent_members X
      in t\<lparr>position := (position t)\<lparr>vec_x := x, vec_y := y\<rparr>,
            facing := (facing t)\<lparr>vec_x := vec_x direction, vec_y := vec_y direction\<rparr>,
            height := h, width := w, scale := sc\<rparr>)"

definition TransformComponent_init :: "TransformComponent \<Rightarrow> TransformComponent" where
  "TransformComponent_init t = t\<lparr>velocity := Zero (velocity t)\<rparr>"

text \<open>
  One coordinate's step in \<open>update\<close>: \<open>static_cast<int>((v * speed) / norm)\<close> when the norm
  is not 0, \<open>static_cast<int>(v * speed)\<close> otherwise.
\<close>

definition TransformComponent_step :: "float \<Rightarrow> float \<Rightarrow> float \<Rightarrow> int result" where
  "TransformComponent_step n v sp =
     (if fne n (float_of_int 0) then static_cast_int (fdiv (fmul v sp) n)
      else static_cast_int (fmul v sp))"

definition TransformComponent_update ::
  "externals \<Rightarrow> TransformComponent \<Rightarrow> TransformComponent result" where
  "TransformComponent_update X t =
     (let n = Norm X (velocity t) in
      case TransformComponent_step n (vec_x (velocity t)) (speed t) of
        Inl f \<Rightarrow> Inl f
      | Inr dx \<Rightarrow>
          (let t1 = t\<lparr>position :=
                       (position t)\<lparr>vec_x := fadd (vec_x (position t)) (float_of_int dx)\<rparr>\<rparr>
           in (case TransformComponent_step n (vec_y (velocity t1)) (speed t1) of
                 Inl f \<Rightarrow> Inl f
               | Inr dy \<Rightarrow>
                   Inr (t1\<lparr>position :=
                          (position t1)\<lparr>vec_y :=
                             fadd (vec_y (position t1)) (float_of_int dy)\<rparr>\<rparr>))))"

section \<open>ECS.h: component type ids\<close>

text \<open>
  \<open>ComponentID\<close> and \<open>Group\<close> are \<open>std::size_t\<close>; they are used as indices only, and the one
  arithmetic step, \<open>lastID++\<close>, is written with its wrap-around at \<open>2^64\<close>. An address
  (\<open>Entity*\<close>, \<open>Component*\<close>) is a natural number.
\<close>

type_synonym ComponentID = nat
type_synonym Group = nat
type_synonym addr = nat

definition maxComponents :: nat where
  "maxComponents = 32"

definition maxGroups :: nat where
  "maxGroups = 32"

text \<open>
  The template argument \<open>T\<close> ranges over the component classes of the sources: \<open>Component\<close>
  itself, which is not abstract, and \<open>TransformComponent\<close>.
\<close>

datatype ctype = Component_T | TransformComponent_T

text \<open>
  The function-local statics: \<open>lastID\<close> of \<open>getNewComponentTypeID\<close>, and one \<open>typeID\<close> for
  each instance of the template \<open>getComponentTypeID<T>\<close>, initialised by the first call.
\<close>

record TypeIDs =
  lastID :: ComponentID
  typeID :: "ctype \<Rightarrow> ComponentID option"

definition TypeIDs_start :: TypeIDs where
  "TypeIDs_start = \<lparr>lastID = 0, typeID = (\<lambda>T. None)\<rparr>"

definition getNewComponentTypeID :: "TypeIDs \<Rightarrow> ComponentID \<times> TypeIDs" where
  "getNewComponentTypeID s = (lastID s, s\<lparr>lastID := (lastID s + 1) mod 2 ^ 64\<rparr>)"

definition getComponentTypeID :: "ctype \<Rightarrow> TypeIDs \<Rightarrow> ComponentID \<times> TypeIDs" where
  "getComponentTypeID T s =
     (case typeID s T of
        Some i \<Rightarrow> (i, s)
      | None \<Rightarrow>
          (let (i, s') = getNewComponentTypeID s
           in (i, s'\<lparr>typeID := (typeID s')(T := Some i)\<rparr>)))"

section \<open>ECS.h: Component\<close>

text \<open>
  A component object: the member \<open>entity\<close> of the base class (not initialised by any
  constructor, so \<open>None\<close> until \<open>addComponent\<close> writes it) and the members of the class the
  object was created as.
\<close>

datatype members = Component_members | Transform_members TransformComponent

record Component =
  entity :: "addr option"
  members :: members

text \<open>\<open>new T(args)\<close>: the class and the constructor are fixed by the arguments.\<close>

datatype ctor_args = Args_Component | Args_TransformComponent TransformComponent_args

fun class_of :: "ctor_args \<Rightarrow> ctype" where
  "class_of Args_Component = Component_T"
| "class_of (Args_TransformComponent a) = TransformComponent_T"

fun new_Component :: "externals \<Rightarrow> ctor_args \<Rightarrow> Component" where
  "new_Component X Args_Component = \<lparr>entity = None, members = Component_members\<rparr>"
| "new_Component X (Args_TransformComponent a) =
     \<lparr>entity = None, members = Transform_members (TransformComponent_new X a)\<rparr>"

text \<open>
  The virtual functions. \<open>Component\<close>'s own bodies are empty; \<open>TransformComponent\<close>
  overrides \<open>init\<close> and \<open>update\<close> and inherits \<open>draw\<close>. Both overriders read and write the
  object's own members only.
\<close>

definition Component_init :: "Component \<Rightarrow> Component" where
  "Component_init c =
     (case members c of
        Component_members \<Rightarrow> c
      | Transform_members t \<Rightarrow>
          c\<lparr>members := Transform_members (TransformComponent_init t)\<rparr>)"

definition Component_update :: "externals \<Rightarrow> Component \<Rightarrow> Component result" where
  "Component_update X c =
     (case members c of
        Component_members \<Rightarrow> Inr c
      | Transform_members t \<Rightarrow>
          (case TransformComponent_update X t of
             Inl f \<Rightarrow> Inl f
           | Inr t' \<Rightarrow> Inr (c\<lparr>members := Transform_members t'\<rparr>)))"

definition Component_draw :: "Component \<Rightarrow> Component" where
  "Component_draw c = c"

section \<open>ECS.h: Entity\<close>

text \<open>
  \<open>components\<close> is the vector of \<open>unique_ptr\<close>: each element is an owned object together
  with its address, so an object lives exactly as long as its element. \<open>componentArray\<close>
  is the array of 32 raw pointers; its slots are indeterminate (\<open>None\<close>) until written. The
  two bitsets are 32-bit words. The reference \<open>manager\<close> is not a field here: the model has
  one \<open>Manager\<close>, the one every entity was created by.
\<close>

record Entity =
  active :: bool
  components :: "(addr \<times> Component) list"
  componentArray :: "ComponentID \<Rightarrow> addr option"
  componentBitSet :: "32 word"
  groupBitSet :: "32 word"

definition new_Entity :: Entity where
  "new_Entity =
     \<lparr>active = True, components = [], componentArray = (\<lambda>i. None),
      componentBitSet = 0, groupBitSet = 0\<rparr>"

text \<open>Writing through a pointer into a vector of owned objects.\<close>

fun store :: "addr \<Rightarrow> 'a \<Rightarrow> (addr \<times> 'a) list \<Rightarrow> (addr \<times> 'a) list" where
  "store a v [] = []"
| "store a v ((p, u) # r) = (if p = a then (p, v) # r else (p, u) # store a v r)"

text \<open>
  \<open>for (auto& c : components) c->update();\<close> The loop stops at the first call whose
  behaviour is undefined.
\<close>

fun update_components :: "externals \<Rightarrow> (addr \<times> Component) list \<Rightarrow> (addr \<times> Component) list result" where
  "update_components X [] = Inr []"
| "update_components X ((p, c) # r) =
     (case Component_update X c of
        Inl f \<Rightarrow> Inl f
      | Inr c' \<Rightarrow>
          (case update_components X r of
             Inl f \<Rightarrow> Inl f
           | Inr r' \<Rightarrow> Inr ((p, c') # r')))"

definition Entity_update :: "externals \<Rightarrow> Entity \<Rightarrow> Entity result" where
  "Entity_update X e =
     (case update_components X (components e) of
        Inl f \<Rightarrow> Inl f
      | Inr cs \<Rightarrow> Inr (e\<lparr>components := cs\<rparr>))"

definition Entity_draw :: "Entity \<Rightarrow> Entity" where
  "Entity_draw e = e\<lparr>components := map (\<lambda>(p, c). (p, Component_draw c)) (components e)\<rparr>"

definition isActive :: "Entity \<Rightarrow> bool" where
  "isActive e = active e"

definition destroy :: "Entity \<Rightarrow> Entity" where
  "destroy e = e\<lparr>active := False\<rparr>"

definition hasGroup :: "Entity \<Rightarrow> Group \<Rightarrow> bool result" where
  "hasGroup e mGroup =
     (if mGroup < maxGroups then Inr (bit (groupBitSet e) mGroup) else Inl OutOfBounds)"

definition delGroup :: "Entity \<Rightarrow> Group \<Rightarrow> Entity result" where
  "delGroup e mGroup =
     (if mGroup < maxGroups then Inr (e\<lparr>groupBitSet := unset_bit mGroup (groupBitSet e)\<rparr>)
      else Inl OutOfBounds)"

definition hasComponent :: "ctype \<Rightarrow> Entity \<Rightarrow> TypeIDs \<Rightarrow> (bool \<times> TypeIDs) result" where
  "hasComponent T e s =
     (let (i, s') = getComponentTypeID T s
      in if i < maxComponents then Inr (bit (componentBitSet e) i, s') else Inl OutOfBounds)"

text \<open>
  \<open>addComponent\<close>. \<open>this\<close> is the address of the entity, \<open>p\<close> the address that \<open>new\<close>
  returned for the component. The result is the reference returned (the address \<open>p\<close>),
  the entity and the statics.
\<close>

definition addComponent ::
  "externals \<Rightarrow> addr \<Rightarrow> addr \<Rightarrow> ctor_args \<Rightarrow> Entity \<Rightarrow> TypeIDs \<Rightarrow> (addr \<times> Entity \<times> TypeIDs) result" where
  "addComponent X this p mArgs e s =
     (let c = (new_Component X mArgs)\<lparr>entity := Some this\<rparr>;
          e1 = e\<lparr>components := components e @ [(p, c)]\<rparr>;
          (i, s1) = getComponentTypeID (class_of mArgs) s
      in if \<not> i < maxComponents then Inl OutOfBounds
         else
           let e2 = e1\<lparr>componentArray := (componentArray e1)(i := Some p)\<rparr>;
               (j, s2) = getComponentTypeID (class_of mArgs) s1
           in if \<not> j < maxComponents then Inl OutOfBounds
              else
                let e3 = e2\<lparr>componentBitSet := set_bit j (componentBitSet e2)\<rparr>;
                    e4 = e3\<lparr>components := store p (Component_init c) (components e3)\<rparr>
                in Inr (p, e4, s2))"

text \<open>
  \<open>getComponent\<close> returns a reference: the address held in the slot. A slot that was
  never written holds no pointer to return.
\<close>

definition getComponent :: "ctype \<Rightarrow> Entity \<Rightarrow> TypeIDs \<Rightarrow> (addr \<times> TypeIDs) result" where
  "getComponent T e s =
     (let (i, s') = getComponentTypeID T s
      in if \<not> i < maxComponents then Inl OutOfBounds
         else (case componentArray e i of
                 None \<Rightarrow> Inl IndeterminateValue
               | Some ptr \<Rightarrow> Inr (ptr, s')))"

text \<open>The object a component reference of an entity denotes.\<close>

definition component_at :: "Entity \<Rightarrow> addr \<Rightarrow> Component option" where
  "component_at e p = map_of (components e) p"

section \<open>ECS.h: Manager\<close>

text \<open>
  \<open>entities\<close> is the vector of \<open>unique_ptr<Entity>\<close>, again each owned object with its
  address: erasing an element destroys the entity. \<open>groupedEntities\<close> is the array of 32
  vectors of raw pointers.
\<close>

record Manager =
  entities :: "(addr \<times> Entity) list"
  groupedEntities :: "Group \<Rightarrow> addr list"

definition new_Manager :: Manager where
  "new_Manager = \<lparr>entities = [], groupedEntities = (\<lambda>g. [])\<rparr>"

text \<open>
  \<open>for (auto& e : entities) e->update();\<close> The first component of the result is not
  program state: it lists the receivers of the calls \<open>e->update()\<close> in the order in which
  the loop makes them.
\<close>

fun update_entities ::
  "externals \<Rightarrow> (addr \<times> Entity) list \<Rightarrow> (addr list \<times> (addr \<times> Entity) list) result" where
  "update_entities X [] = Inr ([], [])"
| "update_entities X ((p, e) # r) =
     (case Entity_update X e of
        Inl f \<Rightarrow> Inl f
      | Inr e' \<Rightarrow>
          (case update_entities X r of
             Inl f \<Rightarrow> Inl f
           | Inr (calls, r') \<Rightarrow> Inr (p # calls, (p, e') # r')))"

definition Manager_update :: "externals \<Rightarrow> Manager \<Rightarrow> (addr list \<times> Manager) result" where
  "Manager_update X m =
     (case update_entities X (entities m) of
        Inl f \<Rightarrow> Inl f
      | Inr (calls, es) \<Rightarrow> Inr (calls, m\<lparr>entities := es\<rparr>))"

definition Manager_draw :: "Manager \<Rightarrow> Manager" where
  "Manager_draw m = m\<lparr>entities := map (\<lambda>(p, e). (p, Entity_draw e)) (entities m)\<rparr>"

text \<open>
  \<open>v.erase(std::remove_if(std::begin(v), std::end(v), pred), std::end(v))\<close>: the predicate
  is applied to every element once, the elements for which it is false stay, in their
  order.
\<close>

fun remove_if :: "('a \<Rightarrow> bool result) \<Rightarrow> 'a list \<Rightarrow> 'a list result" where
  "remove_if pred [] = Inr []"
| "remove_if pred (x # xs) =
     (case pred x of
        Inl f \<Rightarrow> Inl f
      | Inr b \<Rightarrow>
          (case remove_if pred xs of
             Inl f \<Rightarrow> Inl f
           | Inr ys \<Rightarrow> Inr (if b then ys else x # ys)))"

text \<open>
  The predicate of the first pass of \<open>refresh\<close>,
  \<open>!mEntity->isActive() || !mEntity->hasGroup(i)\<close>; it reads through the pointer.
\<close>

definition refresh_pred :: "Manager \<Rightarrow> Group \<Rightarrow> addr \<Rightarrow> bool result" where
  "refresh_pred m i mEntity =
     (case map_of (entities m) mEntity of
        None \<Rightarrow> Inl InvalidPointer
      | Some e \<Rightarrow>
          (if \<not> isActive e then Inr True
           else (case hasGroup e i of Inl f \<Rightarrow> Inl f | Inr b \<Rightarrow> Inr (\<not> b))))"

function refresh_groups :: "nat \<Rightarrow> Manager \<Rightarrow> Manager result" where
  "refresh_groups i m =
     (if i < maxGroups then
        (case remove_if (refresh_pred m i) (groupedEntities m i) of
           Inl f \<Rightarrow> Inl f
         | Inr v \<Rightarrow> refresh_groups (i + 1) (m\<lparr>groupedEntities := (groupedEntities m)(i := v)\<rparr>))
      else Inr m)"
  by pat_completeness auto
termination
  by (relation "measure (\<lambda>(i, m). maxGroups - i)") auto

declare refresh_groups.simps [simp del]

definition refresh :: "Manager \<Rightarrow> Manager result" where
  "refresh m =
     (case refresh_groups 0 m of
        Inl f \<Rightarrow> Inl f
      | Inr m1 \<Rightarrow>
          (case remove_if (\<lambda>(p, e). Inr (\<not> isActive e)) (entities m1) of
             Inl f \<Rightarrow> Inl f
           | Inr es \<Rightarrow> Inr (m1\<lparr>entities := es\<rparr>)))"

definition addToGroup :: "addr \<Rightarrow> Group \<Rightarrow> Manager \<Rightarrow> Manager result" where
  "addToGroup mEntity mGroup m =
     (if mGroup < maxGroups then
        Inr (m\<lparr>groupedEntities :=
                 (groupedEntities m)(mGroup := groupedEntities m mGroup @ [mEntity])\<rparr>)
      else Inl OutOfBounds)"

definition getGroup :: "Group \<Rightarrow> Manager \<Rightarrow> addr list result" where
  "getGroup mGroup m =
     (if mGroup < maxGroups then Inr (groupedEntities m mGroup) else Inl OutOfBounds)"

text \<open>\<open>addEntity\<close>; \<open>p\<close> is the address that \<open>new\<close> returned.\<close>

definition addEntity :: "addr \<Rightarrow> Manager \<Rightarrow> addr \<times> Manager" where
  "addEntity p m = (p, m\<lparr>entities := entities m @ [(p, new_Entity)]\<rparr>)"

text \<open>A member function of \<open>Entity\<close> called through a pointer held by a caller.\<close>

definition through ::
  "addr \<Rightarrow> (Entity \<Rightarrow> Entity result) \<Rightarrow> Manager \<Rightarrow> Manager result" where
  "through a f m =
     (case map_of (entities m) a of
        None \<Rightarrow> Inl InvalidPointer
      | Some e \<Rightarrow>
          (case f e of
             Inl x \<Rightarrow> Inl x
           | Inr e' \<Rightarrow> Inr (m\<lparr>entities := store a e' (entities m)\<rparr>)))"

text \<open>
  Modelled from the spec: \<open>Entity::addGroup\<close> is declared in ECS.h and defined in a file
  that is not among the sources. The spec: it mutates the group-membership set and
  "additionally notifies the owning Registry to insert this Entity into that group's
  index". So it sets the bit of the group, as \<open>delGroup\<close> clears it, and calls
  \<open>manager.addToGroup(this, mGroup)\<close>.
\<close>

definition addGroup :: "addr \<Rightarrow> Group \<Rightarrow> Manager \<Rightarrow> Manager result" where
  "addGroup this mGroup m =
     (case through this
             (\<lambda>e. if mGroup < maxGroups
                  then Inr (e\<lparr>groupBitSet := set_bit mGroup (groupBitSet e)\<rparr>)
                  else Inl OutOfBounds) m of
        Inl f \<Rightarrow> Inl f
      | Inr m1 \<Rightarrow> addToGroup this mGroup m1)"

section \<open>The program state and the calls a client can make\<close>

record World =
  manager :: Manager
  statics :: TypeIDs

datatype call =
    Call_addEntity addr
  | Call_update
  | Call_draw
  | Call_refresh
  | Call_addToGroup addr Group
  | Call_Entity_update addr
  | Call_Entity_draw addr
  | Call_destroy addr
  | Call_addGroup addr Group
  | Call_delGroup addr Group
  | Call_addComponent addr addr ctor_args
  | Call_hasComponent addr ctype
  | Call_getComponent addr ctype

definition lift_Manager :: "Manager result \<Rightarrow> World \<Rightarrow> World result" where
  "lift_Manager r w = (case r of Inl f \<Rightarrow> Inl f | Inr m \<Rightarrow> Inr (w\<lparr>manager := m\<rparr>))"

fun exec :: "externals \<Rightarrow> call \<Rightarrow> World \<Rightarrow> World result" where
  "exec X (Call_addEntity p) w = Inr (w\<lparr>manager := snd (addEntity p (manager w))\<rparr>)"
| "exec X Call_update w =
     lift_Manager (case Manager_update X (manager w) of Inl f \<Rightarrow> Inl f | Inr (calls, m) \<Rightarrow> Inr m) w"
| "exec X Call_draw w = Inr (w\<lparr>manager := Manager_draw (manager w)\<rparr>)"
| "exec X Call_refresh w = lift_Manager (refresh (manager w)) w"
| "exec X (Call_addToGroup a g) w = lift_Manager (addToGroup a g (manager w)) w"
| "exec X (Call_Entity_update a) w = lift_Manager (through a (Entity_update X) (manager w)) w"
| "exec X (Call_Entity_draw a) w =
     lift_Manager (through a (\<lambda>e. Inr (Entity_draw e)) (manager w)) w"
| "exec X (Call_destroy a) w = lift_Manager (through a (\<lambda>e. Inr (destroy e)) (manager w)) w"
| "exec X (Call_addGroup a g) w = lift_Manager (addGroup a g (manager w)) w"
| "exec X (Call_delGroup a g) w = lift_Manager (through a (\<lambda>e. delGroup e g) (manager w)) w"
| "exec X (Call_addComponent a p mArgs) w =
     (case map_of (entities (manager w)) a of
        None \<Rightarrow> Inl InvalidPointer
      | Some e \<Rightarrow>
          (case addComponent X a p mArgs e (statics w) of
             Inl f \<Rightarrow> Inl f
           | Inr (c, e', s') \<Rightarrow>
               Inr (w\<lparr>manager := (manager w)\<lparr>entities := store a e' (entities (manager w))\<rparr>,
                      statics := s'\<rparr>)))"
| "exec X (Call_hasComponent a T) w =
     (case map_of (entities (manager w)) a of
        None \<Rightarrow> Inl InvalidPointer
      | Some e \<Rightarrow>
          (case hasComponent T e (statics w) of
             Inl f \<Rightarrow> Inl f
           | Inr (b, s') \<Rightarrow> Inr (w\<lparr>statics := s'\<rparr>)))"
| "exec X (Call_getComponent a T) w =
     (case map_of (entities (manager w)) a of
        None \<Rightarrow> Inl InvalidPointer
      | Some e \<Rightarrow>
          (case getComponent T e (statics w) of
             Inl f \<Rightarrow> Inl f
           | Inr (c, s') \<Rightarrow> Inr (w\<lparr>statics := s'\<rparr>)))"

fun run :: "externals \<Rightarrow> call list \<Rightarrow> World \<Rightarrow> World result" where
  "run X [] w = Inr w"
| "run X (c # cs) w = (case exec X c w of Inl f \<Rightarrow> Inl f | Inr w' \<Rightarrow> run X cs w')"

section \<open>Notions the properties are stated with\<close>

text \<open>
  A reference of the index of group \<open>g\<close> survives the first pass of \<open>refresh\<close> when its
  entity is active and has the bit of \<open>g\<close> set.
\<close>

definition survives :: "Manager \<Rightarrow> Group \<Rightarrow> addr \<Rightarrow> bool" where
  "survives m g a =
     (case map_of (entities m) a of
        None \<Rightarrow> False
      | Some e \<Rightarrow> isActive e \<and> bit (groupBitSet e) g)"

text \<open>Every pointer of every group index points to an entity of the primary collection.\<close>

definition pointers_valid :: "Manager \<Rightarrow> bool" where
  "pointers_valid m =
     (\<forall>g \<in> {..<maxGroups}. \<forall>a \<in> set (groupedEntities m g). map_of (entities m) a \<noteq> None)"

text \<open>No two elements of the primary collection own the same object.\<close>

definition Manager_ok :: "Manager \<Rightarrow> bool" where
  "Manager_ok m = (distinct (map fst (entities m)) \<and> pointers_valid m)"

definition addresses :: "Manager \<Rightarrow> addr list" where
  "addresses m = map fst (entities m)"

text \<open>The entity at address \<open>a\<close> is in the primary collection.\<close>

definition present :: "addr \<Rightarrow> World \<Rightarrow> bool" where
  "present a w = (a \<in> set (addresses (manager w)))"

text \<open>The arguments of a constructor of \<open>TransformComponent\<close> are values of \<open>float\<close>.\<close>

fun args_are_floats :: "TransformComponent_args \<Rightarrow> bool" where
  "args_are_floats TC_default = True"
| "args_are_floats (TC_scale sc) = is_binary32 sc"
| "args_are_floats (TC_xy x y) = (is_binary32 x \<and> is_binary32 y)"
| "args_are_floats (TC_xyhws x y h w sc) = (is_binary32 x \<and> is_binary32 y \<and> is_binary32 sc)"
| "args_are_floats (TC_xydhws x y d h w sc) =
     (is_binary32 x \<and> is_binary32 y \<and> is_binary32 (vec_x d) \<and> is_binary32 (vec_y d) \<and>
      is_binary32 sc)"

section \<open>Concrete states\<close>

text \<open>
  One choice of the parameters: tiles of 32 pixels, a default vector of zeros, and for
  \<open>Norm\<close> the formula of the comment in \<open>TransformComponent::update\<close>, rounded once.
\<close>

definition Norm_sqrt :: "Vector2D \<Rightarrow> float" where
  "Norm_sqrt v =
     (if vec_x v = NaN \<or> vec_y v = NaN then NaN
      else (case (vec_x v, vec_y v) of
              (Finite a, Finite b) \<Rightarrow> round_f32 (sqrt (a ^ 2 + b ^ 2))
            | _ \<Rightarrow> Infinity False))"

definition sample_externals :: externals where
  "sample_externals =
     \<lparr>TILE_SIZE = 32, Vector2D_default = \<lparr>vec_x = Finite 0, vec_y = Finite 0\<rparr>,
      Norm = Norm_sqrt\<rparr>"

text \<open>
  Two components moving right at speed 3: one at \<open>(5, 7)\<close>, one at \<open>(2^25, 0)\<close>, where
  neighbouring floats are 4 apart.
\<close>

definition near_TransformComponent :: TransformComponent where
  "near_TransformComponent =
     (TransformComponent_init
        (TransformComponent_new sample_externals (TC_xy (Finite 5) (Finite 7))))
     \<lparr>velocity := \<lparr>vec_x = float_of_int 1, vec_y = float_of_int 0\<rparr>\<rparr>"

definition far_TransformComponent :: TransformComponent where
  "far_TransformComponent =
     (TransformComponent_init
        (TransformComponent_new sample_externals (TC_xy (Finite 33554432) (Finite 0))))
     \<lparr>velocity := \<lparr>vec_x = float_of_int 1, vec_y = float_of_int 0\<rparr>\<rparr>"

text \<open>
  A manager with three entities. Entity 1 is active, in group 0, and referenced twice by
  the index of group 0. Entity 2 was destroyed; it is in group 0 and owns the component
  at \<open>(5, 7)\<close>. Entity 3 is active and in no group, but the index of group 0 still
  refers to it.
\<close>

definition sample_Manager :: Manager where
  "sample_Manager =
     \<lparr>entities =
        [(1, new_Entity\<lparr>groupBitSet := set_bit 0 0\<rparr>),
         (2, destroy
               (new_Entity
                  \<lparr>components :=
                     [(20, \<lparr>entity = Some 2,
                            members = Transform_members near_TransformComponent\<rparr>)],
                   groupBitSet := set_bit 0 0\<rparr>)),
         (3, new_Entity)],
      groupedEntities = (\<lambda>g. [])(0 := [1, 2, 3, 1])\<rparr>"

definition sample_World :: World where
  "sample_World = \<lparr>manager = sample_Manager, statics = TypeIDs_start\<rparr>"

section \<open>Floats: facts\<close>

lemma round_half_even_of_int [simp]: "round_half_even (of_int m) = m"
  by (simp add: round_half_even_def)

lemma round_f32_0: "round_f32 0 = Finite 0"
  by (simp add: round_f32_def)

lemma float_of_int_0: "float_of_int 0 = Finite 0"
  by (simp add: float_of_int_def round_f32_def)

text \<open>The exponent function is the integer logarithm, and powers of two add up.\<close>

lemma pow2_nonneg: "0 \<le> k \<Longrightarrow> pow2 k = 2 ^ nat k"
  by (simp add: pow2_def)

lemma pow2_neg: "k \<le> 0 \<Longrightarrow> pow2 k = 1 / 2 ^ nat (- k)"
  by (cases "k = 0") (simp_all add: pow2_def)

lemma ilog2_bounds:
  assumes "0 < a"
  shows "pow2 (ilog2 a) \<le> a \<and> a < pow2 (ilog2 a + 1)"
proof (cases "1 \<le> a")
  case True
  define n where "n = nat \<lfloor>a\<rfloor>"
  define k where "k = floorlog 2 n"
  have n1: "0 < n" using True by (simp add: n_def)
  from floorlog_bounds [of n 2] n1 have b: "2 ^ (k - 1) \<le> n" "n < 2 ^ k"
    by (simp_all add: k_def)
  have "k \<noteq> 0" using n1 by (simp add: k_def floorlog_eq_zero_iff)
  then have k1: "0 < k" by simp
  have il: "ilog2 a = int k - 1" using True by (simp add: ilog2_def n_def k_def)
  have na: "real n \<le> a" using True by (simp add: n_def)
  have an: "a < real n + 1" using True by (simp add: n_def)
  have "real (2 ^ (k - 1)) \<le> real n" using b(1) by (rule of_nat_mono)
  then have r1: "(2::real) ^ (k - 1) \<le> real n" by simp
  have "real (Suc n) \<le> real (2 ^ k)" using b(2) by (intro of_nat_mono) simp
  then have r2: "real n + 1 \<le> 2 ^ k" by simp
  have p1: "pow2 (ilog2 a) = 2 ^ (k - 1)"
    using k1 by (simp add: il pow2_nonneg nat_diff_distrib')
  have p2: "pow2 (ilog2 a + 1) = 2 ^ k"
    by (simp add: il pow2_nonneg)
  have lo: "pow2 (ilog2 a) \<le> a" unfolding p1 using r1 na by linarith
  have hi: "a < pow2 (ilog2 a + 1)" unfolding p2 using r2 an by linarith
  from lo hi show ?thesis ..
next
  case False
  define c where "c = nat (\<lceil>1 / a\<rceil> - 1)"
  define j where "j = floorlog 2 c"
  have a1: "a < 1" using False by simp
  have y1: "1 < 1 / a" using assms a1 by simp
  then have "2 \<le> \<lceil>1 / a\<rceil>" by linarith
  then have c1: "0 < c" by (simp add: c_def)
  have cy: "real c < 1 / a" using y1 by (simp add: c_def) linarith
  have yc: "1 / a \<le> real c + 1" using y1 by (simp add: c_def) linarith
  from floorlog_bounds [of c 2] c1 have b: "2 ^ (j - 1) \<le> c" "c < 2 ^ j"
    by (simp_all add: j_def)
  have "j \<noteq> 0" using c1 by (simp add: j_def floorlog_eq_zero_iff)
  then have j1: "0 < j" by simp
  have il: "ilog2 a = - int j" using False by (simp add: ilog2_def c_def j_def)
  have "real (2 ^ (j - 1)) \<le> real c" using b(1) by (rule of_nat_mono)
  then have r1: "(2::real) ^ (j - 1) \<le> real c" by simp
  have "real (Suc c) \<le> real (2 ^ j)" using b(2) by (intro of_nat_mono) simp
  then have r2: "real c + 1 \<le> 2 ^ j" by simp
  have p1: "pow2 (ilog2 a) = 1 / 2 ^ j"
    by (simp add: il pow2_neg)
  have p2: "pow2 (ilog2 a + 1) = 1 / 2 ^ (j - 1)"
    using j1 by (simp add: il pow2_neg nat_diff_distrib')
  from yc r2 have "1 / a \<le> 2 ^ j" by linarith
  then have "1 \<le> 2 ^ j * a" using assms by (simp add: field_simps)
  then have lo: "pow2 (ilog2 a) \<le> a" unfolding p1 by (simp add: field_simps)
  from cy r1 have "(2::real) ^ (j - 1) < 1 / a" by linarith
  then have "2 ^ (j - 1) * a < 1" using assms by (simp add: field_simps)
  then have hi: "a < pow2 (ilog2 a + 1)" unfolding p2 by (simp add: field_simps)
  from lo hi show ?thesis ..
qed

lemma round_half_even_near: "\<bar>of_int (round_half_even q) - q\<bar> \<le> 1 / 2"
  by (auto simp: round_half_even_def Let_def)

lemma pow2_pos: "0 < pow2 e"
  by (simp add: pow2_def)

lemma pow2_Suc: "pow2 (e + 1) = 2 * pow2 e"
proof (cases "0 \<le> e")
  case True
  then show ?thesis by (simp add: pow2_def nat_add_distrib)
next
  case False
  then have "nat (- e) = Suc (nat (- e - 1))" by simp
  then have "(2::real) ^ nat (- e) = 2 * 2 ^ nat (- e - 1)" by simp
  then show ?thesis using False by (cases "e = - 1") (simp_all add: pow2_def)
qed

lemma pow2_add_nat: "pow2 (e + int n) = 2 ^ n * pow2 e"
proof (induction n)
  case 0
  then show ?case by simp
next
  case (Suc n)
  have "e + int (Suc n) = (e + int n) + 1" by simp
  then have "pow2 (e + int (Suc n)) = pow2 ((e + int n) + 1)" by (rule arg_cong)
  also have "\<dots> = 2 * pow2 (e + int n)" by (rule pow2_Suc)
  finally show ?case by (simp add: Suc)
qed

lemma pow2_mono: "a \<le> b \<Longrightarrow> pow2 a \<le> pow2 b"
proof -
  assume "a \<le> b"
  then obtain n where b: "b = a + int n" by (metis zle_iff_zadd)
  have "(1::real) \<le> 2 ^ n" by simp
  then have "pow2 a \<le> 2 ^ n * pow2 a"
    using pow2_pos [of a] by (simp add: mult_le_cancel_right1)
  then show ?thesis by (simp add: b pow2_add_nat)
qed


lemma round_f32_Finite:
  assumes "round_f32 r = Finite v" and "r \<noteq> 0"
  defines "e \<equiv> max (- 149) (ilog2 \<bar>r\<bar> - 23)"
  shows "\<exists>m. v = of_int m * pow2 e \<and> \<bar>m\<bar> \<le> 2 ^ 24 \<and> \<bar>v - r\<bar> \<le> pow2 e / 2"
proof -
  define q where "q = r / pow2 e"
  define m where "m = round_half_even q"
  have v: "v = of_int m * pow2 e"
    using assms(1,2) by (simp add: round_f32_def Let_def e_def m_def q_def split: if_splits)
  have near: "\<bar>of_int m - q\<bar> \<le> 1 / 2"
    unfolding m_def by (rule round_half_even_near)
  have r: "r = q * pow2 e" using pow2_pos [of e] by (simp add: q_def)
  have "v - r = (of_int m - q) * pow2 e" by (simp add: v r algebra_simps)
  then have "\<bar>v - r\<bar> = \<bar>of_int m - q\<bar> * pow2 e"
    using pow2_pos [of e] by (simp add: abs_mult)
  also have "\<dots> \<le> (1 / 2) * pow2 e"
    using near pow2_pos [of e] by (intro mult_right_mono) simp_all
  finally have close: "\<bar>v - r\<bar> \<le> pow2 e / 2" by simp
  have "0 < \<bar>r\<bar>" using assms(2) by simp
  from ilog2_bounds [OF this] have "\<bar>r\<bar> < pow2 (ilog2 \<bar>r\<bar> + 1)" by simp
  also have "\<dots> \<le> pow2 (e + int 24)" by (rule pow2_mono) (simp add: e_def)
  also have "\<dots> = 2 ^ 24 * pow2 e" by (rule pow2_add_nat)
  finally have "\<bar>q\<bar> * pow2 e < 2 ^ 24 * pow2 e"
    using pow2_pos [of e] by (simp add: r abs_mult)
  then have "\<bar>q\<bar> < 2 ^ 24" using pow2_pos [of e] by simp
  with near have "\<bar>real_of_int m\<bar> < 2 ^ 24 + 1" by linarith
  then have "real_of_int \<bar>m\<bar> < real_of_int (2 ^ 24 + 1)" by simp
  then have "\<bar>m\<bar> < 2 ^ 24 + 1" by (simp only: of_int_less_iff)
  then have "\<bar>m\<bar> \<le> 2 ^ 24" by simp
  with v close show ?thesis by blast
qed

lemma ilog2_small:
  assumes "n \<noteq> 0" and "\<bar>n\<bar> < 2 ^ 24"
  shows "ilog2 \<bar>of_int n\<bar> - 23 \<le> 0"
proof -
  have one: "1 \<le> \<bar>real_of_int n\<bar>" using assms(1) by linarith
  have fl: "\<lfloor>\<bar>real_of_int n\<bar>\<rfloor> = \<bar>n\<bar>" by (metis floor_of_int of_int_abs)
  have "nat \<bar>n\<bar> < 2 ^ 24" using assms(2) by (simp add: nat_less_iff)
  then have "floorlog 2 (nat \<bar>n\<bar>) \<le> 24"
    by (simp add: floorlog_le_iff)
  then show ?thesis using one fl by (simp add: ilog2_def)
qed

text \<open>Every integer of magnitude below \<open>2^24\<close> is a float: rounding leaves it alone.\<close>

lemma round_f32_of_int:
  assumes "\<bar>n\<bar> < 2 ^ 24"
  shows "round_f32 (of_int n) = Finite (of_int n)"
proof (cases "n = 0")
  case True
  then show ?thesis by (simp add: round_f32_def)
next
  case False
  define e where "e = max (- 149) (ilog2 \<bar>of_int n\<bar> - 23)"
  have e0: "e \<le> 0" using ilog2_small [OF False assms] by (simp add: e_def)
  define k where "k = nat (- e)"
  have p: "pow2 e = 1 / 2 ^ k"
    using e0 by (cases "e = 0") (simp_all add: pow2_def k_def)
  have q: "real_of_int n / pow2 e = of_int (n * 2 ^ k)"
    by (simp add: p)
  have v: "of_int (round_half_even (real_of_int n / pow2 e)) * pow2 e = real_of_int n"
    unfolding q round_half_even_of_int by (simp add: p)
  have small: "\<not> (2::real) ^ 128 \<le> \<bar>real_of_int n\<bar>"
  proof -
    have "\<bar>real_of_int n\<bar> < 2 ^ 24" using assms
      by (metis of_int_abs of_int_less_numeral_power_cancel_iff)
    also have "\<dots> \<le> (2::real) ^ 128" by simp
    finally show ?thesis by simp
  qed
  show ?thesis
    using False small by (simp add: round_f32_def Let_def e_def [symmetric] v)
qed

lemma small_integers_are_floats: "\<bar>n\<bar> < 2 ^ 24 \<Longrightarrow> is_binary32 (Finite (of_int n))"
  by (simp add: is_binary32_def round_f32_of_int)

lemma float_of_int_1: "float_of_int 1 = Finite 1"
  using round_f32_of_int [of 1] by (simp add: float_of_int_def)

lemma float_of_int_3: "float_of_int 3 = Finite 3"
  using round_f32_of_int [of 3] by (simp add: float_of_int_def)

lemma round_f32_3: "round_f32 3 = Finite 3"
  using round_f32_of_int [of 3] by simp

text \<open>Between \<open>2^25\<close> and \<open>2^26\<close> the floats are the multiples of 4.\<close>

lemma round_f32_far: "round_f32 33554435 = Finite 33554436"
  by (simp add: round_f32_def ilog2_def compute_floorlog pow2_def round_half_even_def Let_def)

lemma round_f32_far_exact: "round_f32 33554432 = Finite 33554432"
  by (simp add: round_f32_def ilog2_def compute_floorlog pow2_def round_half_even_def Let_def)

lemma fadd_zero: "is_binary32 f \<Longrightarrow> fadd f (Finite 0) = f"
  by (cases f) (simp_all add: is_binary32_def)

lemma static_cast_int_0: "static_cast_int (Finite 0) = Inr 0"
  by (simp add: static_cast_int_def trunc_def)

lemma static_cast_int_3: "static_cast_int (Finite 3) = Inr 3"
  by (simp add: static_cast_int_def trunc_def)

lemma Zero_eq: "Zero v = \<lparr>vec_x = Finite 0, vec_y = Finite 0\<rparr>"
  by (cases v) (simp add: Zero_def)

lemma Norm_sqrt_unit: "Norm_sqrt \<lparr>vec_x = Finite 1, vec_y = Finite 0\<rparr> = Finite 1"
  using round_f32_of_int [of 1] by (simp add: Norm_sqrt_def)

lemma Norm_sqrt_zero: "Norm_sqrt \<lparr>vec_x = Finite 0, vec_y = Finite 0\<rparr> = Finite 0"
  by (simp add: Norm_sqrt_def round_f32_0)

section \<open>TransformComponent: facts\<close>

lemma step_unit_x: "TransformComponent_step (Finite 1) (Finite 1) (Finite 3) = Inr 3"
  by (simp add: TransformComponent_step_def float_of_int_0 round_f32_3 static_cast_int_3)

lemma step_unit_y: "TransformComponent_step (Finite 1) (Finite 0) (Finite 3) = Inr 0"
  by (simp add: TransformComponent_step_def float_of_int_0 round_f32_0 static_cast_int_0)

lemma step_zero: "TransformComponent_step (Finite 0) (Finite 0) (Finite sp) = Inr 0"
  by (simp add: TransformComponent_step_def float_of_int_0 round_f32_0 static_cast_int_0)

text \<open>
  With velocity \<open>(1, 0)\<close>, speed 3 and norm 1 the two steps are the integers 3 and 0, and
  \<open>update\<close> adds them to the position in float arithmetic.
\<close>

lemma update_unit_step:
  assumes "velocity t = \<lparr>vec_x = Finite 1, vec_y = Finite 0\<rparr>"
    and "speed t = Finite 3"
    and "Norm X (velocity t) = Finite 1"
  shows "TransformComponent_update X t =
           Inr (t\<lparr>position := (position t)\<lparr>vec_x := fadd (vec_x (position t)) (Finite 3),
                                          vec_y := fadd (vec_y (position t)) (Finite 0)\<rparr>\<rparr>)"
  using assms
  by (simp add: TransformComponent_update_def Let_def step_unit_x step_unit_y
                float_of_int_0 float_of_int_3)

text \<open>With velocity \<open>(0, 0)\<close> and any finite speed, \<open>update\<close> changes nothing.\<close>

lemma update_zero_velocity:
  assumes "velocity t = \<lparr>vec_x = Finite 0, vec_y = Finite 0\<rparr>"
    and "speed t = Finite sp"
    and "Norm X (velocity t) = Finite 0"
    and "is_binary32 (vec_x (position t))"
    and "is_binary32 (vec_y (position t))"
  shows "TransformComponent_update X t = Inr t"
  using assms
  by (simp add: TransformComponent_update_def Let_def step_zero float_of_int_0 fadd_zero)

lemma new_position_floats:
  "args_are_floats a \<Longrightarrow>
   is_binary32 (vec_x (position (TransformComponent_new X a))) \<and>
   is_binary32 (vec_y (position (TransformComponent_new X a)))"
  by (cases a) (simp_all add: Let_def Zero_eq is_binary32_def round_f32_0)

lemma new_speed: "speed (TransformComponent_new X a) = Finite 3"
  by (cases a) (simp_all add: Let_def TransformComponent_members_def float_of_int_3)

lemma near_velocity:
  "velocity near_TransformComponent = \<lparr>vec_x = Finite 1, vec_y = Finite 0\<rparr>"
  by (simp add: near_TransformComponent_def float_of_int_0 float_of_int_1)

lemma near_speed: "speed near_TransformComponent = Finite 3"
  by (simp add: near_TransformComponent_def TransformComponent_init_def
                TransformComponent_members_def float_of_int_3)

lemma near_position:
  "position near_TransformComponent = \<lparr>vec_x = Finite 5, vec_y = Finite 7\<rparr>"
  by (simp add: near_TransformComponent_def TransformComponent_init_def
                TransformComponent_members_def sample_externals_def)

lemma near_Norm: "Norm sample_externals (velocity near_TransformComponent) = Finite 1"
  by (simp add: near_velocity sample_externals_def Norm_sqrt_unit)

lemma near_update:
  "TransformComponent_update sample_externals near_TransformComponent =
     Inr (near_TransformComponent\<lparr>position := \<lparr>vec_x = Finite 8, vec_y = Finite 7\<rparr>\<rparr>)"
  using update_unit_step [OF near_velocity near_speed near_Norm]
        round_f32_of_int [of 8] round_f32_of_int [of 7]
  by (simp add: near_position)

section \<open>Containers: facts\<close>

lemma fst_store [simp]: "map fst (store a v es) = map fst es"
  by (induction es) auto

lemma map_of_store:
  "map_of (store a v es) b =
     (if b = a \<and> map_of es a \<noteq> None then Some v else map_of es b)"
  by (induction es) auto

lemma store_append_fresh:
  "p \<notin> fst ` set cs \<Longrightarrow> store p v (cs @ [(p, u)]) = cs @ [(p, v)]"
  by (induction cs) auto

lemma map_of_append_fresh:
  "p \<notin> fst ` set cs \<Longrightarrow> map_of (cs @ [(p, v)]) p = Some v"
  by (induction cs) auto

lemma map_of_append_fresh2:
  "p \<notin> fst ` set cs \<Longrightarrow> p \<noteq> q \<Longrightarrow> map_of (cs @ [(p, u), (q, v)]) p = Some u"
  by (induction cs) auto

lemma remove_if_total:
  "\<forall>x \<in> set xs. \<exists>b. pred x = Inr b \<Longrightarrow>
   remove_if pred xs = Inr (filter (\<lambda>x. pred x = Inr False) xs)"
  by (induction xs) auto

lemma remove_if_Inr:
  "remove_if pred xs = Inr ys \<Longrightarrow>
   ys = filter (\<lambda>x. pred x = Inr False) xs \<and> (\<forall>x \<in> set xs. \<exists>b. pred x = Inr b)"
  by (induction xs arbitrary: ys) (auto split: sum.splits if_splits)

lemma remove_if_entities:
  "remove_if (\<lambda>(p, e). Inr (\<not> isActive e)) es = Inr (filter (\<lambda>(p, e). isActive e) es)"
  by (induction es) auto

lemma filter_active_store_destroy:
  "distinct (map fst es) \<Longrightarrow> map_of es a = Some e \<Longrightarrow> \<not> isActive e' \<Longrightarrow>
   a \<notin> fst ` set (filter (\<lambda>(p, e). isActive e) (store a e' es))"
proof (induction es)
  case Nil
  then show ?case by simp
next
  case (Cons pe es)
  obtain p u where pe: "pe = (p, u)" by (cases pe)
  show ?case
  proof (cases "p = a")
    case True
    with Cons.prems pe show ?thesis by (auto simp: rev_image_eqI)
  next
    case False
    with Cons pe show ?thesis by auto
  qed
qed

lemma filter_all_gone:
  "a \<in> set (map fst es) \<Longrightarrow> a \<notin> set (map fst (filter (\<lambda>(p, e). isActive e) es)) \<Longrightarrow>
   \<exists>e. map_of es a = Some e \<and> \<not> isActive e"
  by (induction es) (auto split: if_splits)

section \<open>refresh: what it computes, and when it returns\<close>

lemma refresh_pred_groupedEntities [simp]:
  "refresh_pred (m\<lparr>groupedEntities := G\<rparr>) = refresh_pred m"
  by (rule ext, rule ext) (simp add: refresh_pred_def)

lemma survives_groupedEntities [simp]:
  "survives (m\<lparr>groupedEntities := G\<rparr>) g = survives m g"
  by (rule ext) (simp add: survives_def)

lemma refresh_pred_False:
  "g < maxGroups \<Longrightarrow> (refresh_pred m g a = Inr False) = survives m g a"
  by (auto simp: refresh_pred_def survives_def hasGroup_def split: option.splits)

lemma refresh_pred_defined:
  "g < maxGroups \<Longrightarrow> map_of (entities m) a \<noteq> None \<Longrightarrow> \<exists>b. refresh_pred m g a = Inr b"
  by (auto simp: refresh_pred_def hasGroup_def split: option.splits)

lemma refresh_groups_Inr:
  "refresh_groups i m = Inr m' \<Longrightarrow>
   entities m' = entities m \<and>
   (\<forall>g. groupedEntities m' g =
      (if i \<le> g \<and> g < maxGroups then filter (survives m g) (groupedEntities m g)
       else groupedEntities m g))"
proof (induction i m arbitrary: m' rule: refresh_groups.induct)
  case (1 i m)
  show ?case
  proof (cases "i < maxGroups")
    case False
    with "1.prems" show ?thesis by (auto simp: refresh_groups.simps [of i m])
  next
    case True
    from "1.prems" True obtain v where
      v: "remove_if (refresh_pred m i) (groupedEntities m i) = Inr v" and
      rec: "refresh_groups (i + 1) (m\<lparr>groupedEntities := (groupedEntities m)(i := v)\<rparr>) = Inr m'"
      by (auto simp: refresh_groups.simps [of i m] split: sum.splits)
    from remove_if_Inr [OF v] True
    have v_eq: "v = filter (survives m i) (groupedEntities m i)"
      by (simp add: refresh_pred_False)
    from "1.IH" [OF True v rec]
    have ih: "entities m' = entities m"
      "\<And>g. groupedEntities m' g =
         (if i + 1 \<le> g \<and> g < maxGroups
          then filter (survives m g) (((groupedEntities m)(i := v)) g)
          else ((groupedEntities m)(i := v)) g)"
      by simp_all
    show ?thesis
      using ih True v_eq by auto
  qed
qed

lemma refresh_groups_total:
  "\<forall>g. i \<le> g \<and> g < maxGroups \<longrightarrow> (\<forall>a \<in> set (groupedEntities m g). map_of (entities m) a \<noteq> None)
   \<Longrightarrow> \<exists>m'. refresh_groups i m = Inr m'"
proof (induction i m rule: refresh_groups.induct)
  case (1 i m)
  show ?case
  proof (cases "i < maxGroups")
    case False
    then show ?thesis by (simp add: refresh_groups.simps [of i m])
  next
    case True
    have "\<forall>a \<in> set (groupedEntities m i). \<exists>b. refresh_pred m i a = Inr b"
      using "1.prems" True refresh_pred_defined by blast
    from remove_if_total [OF this] obtain v where
      v: "remove_if (refresh_pred m i) (groupedEntities m i) = Inr v"
        "v = filter (\<lambda>x. refresh_pred m i x = Inr False) (groupedEntities m i)" by blast
    have "\<exists>m'. refresh_groups (i + 1) (m\<lparr>groupedEntities := (groupedEntities m)(i := v)\<rparr>) = Inr m'"
      by (rule "1.IH" [OF True v(1)]) (use "1.prems" in \<open>auto dest: Suc_leD\<close>)
    then show ?thesis using True v(1) by (simp add: refresh_groups.simps [of i m])
  qed
qed

lemma refresh_Inr:
  assumes "refresh m = Inr m'"
  shows "entities m' = filter (\<lambda>(p, e). isActive e) (entities m)"
    and "g < maxGroups \<Longrightarrow> groupedEntities m' g = filter (survives m g) (groupedEntities m g)"
    and "\<not> g < maxGroups \<Longrightarrow> groupedEntities m' g = groupedEntities m g"
proof -
  from assms obtain m1 where m1: "refresh_groups 0 m = Inr m1"
    and m': "m' = m1\<lparr>entities := filter (\<lambda>(p, e). isActive e) (entities m1)\<rparr>"
    by (auto simp: refresh_def remove_if_entities split: sum.splits)
  from refresh_groups_Inr [OF m1] m'
  show "entities m' = filter (\<lambda>(p, e). isActive e) (entities m)"
    and "g < maxGroups \<Longrightarrow> groupedEntities m' g = filter (survives m g) (groupedEntities m g)"
    and "\<not> g < maxGroups \<Longrightarrow> groupedEntities m' g = groupedEntities m g"
    by simp_all
qed

lemma refresh_total:
  assumes "pointers_valid m"
  shows "\<exists>m'. refresh m = Inr m'"
proof -
  have "\<exists>m1. refresh_groups 0 m = Inr m1"
    by (rule refresh_groups_total) (use assms in \<open>auto simp: pointers_valid_def\<close>)
  then show ?thesis
    by (auto simp: refresh_def remove_if_entities)
qed

text \<open>It returns only when every pointer it read was valid.\<close>

lemma refresh_groups_Inr_valid:
  "refresh_groups i m = Inr m' \<Longrightarrow> i \<le> g \<Longrightarrow> g < maxGroups \<Longrightarrow>
   a \<in> set (groupedEntities m g) \<Longrightarrow> map_of (entities m) a \<noteq> None"
proof (induction i m arbitrary: m' rule: refresh_groups.induct)
  case (1 i m)
  from "1.prems" have lt: "i < maxGroups" by simp
  from "1.prems"(1) lt obtain v where
    v: "remove_if (refresh_pred m i) (groupedEntities m i) = Inr v" and
    rec: "refresh_groups (i + 1) (m\<lparr>groupedEntities := (groupedEntities m)(i := v)\<rparr>) = Inr m'"
    by (auto simp: refresh_groups.simps [of i m] split: sum.splits)
  show ?case
  proof (cases "g = i")
    case True
    from remove_if_Inr [OF v] "1.prems"(4) True
    obtain b where "refresh_pred m i a = Inr b" by blast
    then show ?thesis by (auto simp: refresh_pred_def split: option.splits)
  next
    case False
    with "1.prems" have "i + 1 \<le> g" by simp
    from "1.IH" [OF lt v rec this "1.prems"(3)] False "1.prems"(4)
    show ?thesis by simp
  qed
qed

lemma refresh_Inr_valid: "refresh m = Inr m' \<Longrightarrow> pointers_valid m"
  unfolding pointers_valid_def
  by (auto simp: refresh_def split: sum.splits dest: refresh_groups_Inr_valid)

section \<open>The sample manager: facts\<close>

lemma sample_pointers_valid: "pointers_valid sample_Manager"
  by (auto simp: pointers_valid_def sample_Manager_def)

lemma sample_Manager_ok: "Manager_ok sample_Manager"
  by (simp add: Manager_ok_def sample_pointers_valid) (simp add: sample_Manager_def)

lemma sample_survivors:
  "filter (survives sample_Manager 0) [1, 2, 3, 1] = [1, 1]"
  by (simp add: survives_def sample_Manager_def isActive_def destroy_def new_Entity_def
                bit_set_bit_iff)

section \<open>Component type ids and addComponent: facts\<close>

lemma getComponentTypeID_again:
  "getComponentTypeID T s = (i, s') \<Longrightarrow> getComponentTypeID T s' = (i, s')"
  by (auto simp: getComponentTypeID_def getNewComponentTypeID_def split: option.splits)

lemma getComponentTypeID_start:
  "getComponentTypeID T TypeIDs_start = (0, \<lparr>lastID = 1, typeID = (\<lambda>T. None)(T := Some 0)\<rparr>)"
  by (simp add: getComponentTypeID_def getNewComponentTypeID_def TypeIDs_start_def)

lemma addComponent_Inr:
  assumes "addComponent X this p mArgs e s = Inr (c, e', s')"
    and "p \<notin> fst ` set (components e)"
  shows "c = p"
    and "getComponentTypeID (class_of mArgs) s' = (fst (getComponentTypeID (class_of mArgs) s), s')"
    and "fst (getComponentTypeID (class_of mArgs) s) < maxComponents"
    and "e' = e\<lparr>components := components e @
                  [(p, Component_init ((new_Component X mArgs)\<lparr>entity := Some this\<rparr>))],
               componentArray := (componentArray e)
                  (fst (getComponentTypeID (class_of mArgs) s) := Some p),
               componentBitSet := set_bit (fst (getComponentTypeID (class_of mArgs) s))
                  (componentBitSet e)\<rparr>"
proof -
  obtain i s1 where i: "getComponentTypeID (class_of mArgs) s = (i, s1)" by fastforce
  have again: "getComponentTypeID (class_of mArgs) s1 = (i, s1)"
    by (rule getComponentTypeID_again [OF i])
  from assms(1) i again have lt: "i < maxComponents"
    by (auto simp: addComponent_def Let_def split: if_splits)
  from assms(1) i again lt have "c = p" and s': "s' = s1"
    by (auto simp: addComponent_def Let_def)
  show "c = p" by fact
  show "getComponentTypeID (class_of mArgs) s' = (fst (getComponentTypeID (class_of mArgs) s), s')"
    using i again s' by simp
  show "fst (getComponentTypeID (class_of mArgs) s) < maxComponents"
    using i lt by simp
  show "e' = e\<lparr>components := components e @
                  [(p, Component_init ((new_Component X mArgs)\<lparr>entity := Some this\<rparr>))],
               componentArray := (componentArray e)
                  (fst (getComponentTypeID (class_of mArgs) s) := Some p),
               componentBitSet := set_bit (fst (getComponentTypeID (class_of mArgs) s))
                  (componentBitSet e)\<rparr>"
    using assms i again lt
    by (auto simp: addComponent_def Let_def store_append_fresh)
qed

text \<open>
  \<open>addComponent\<close> returns exactly when the id of the class is within the capacity of
  the array and the bitset.
\<close>

lemma addComponent_returns:
  assumes "fst (getComponentTypeID (class_of mArgs) s) < maxComponents"
  shows "\<exists>e' s'. addComponent X this p mArgs e s = Inr (p, e', s')"
proof -
  obtain i s1 where i: "getComponentTypeID (class_of mArgs) s = (i, s1)" by fastforce
  have again: "getComponentTypeID (class_of mArgs) s1 = (i, s1)"
    by (rule getComponentTypeID_again [OF i])
  show ?thesis using assms i again by (simp add: addComponent_def Let_def)
qed

lemma addComponent_out_of_bounds:
  assumes "\<not> fst (getComponentTypeID (class_of mArgs) s) < maxComponents"
  shows "addComponent X this p mArgs e s = Inl OutOfBounds"
proof -
  obtain i s1 where i: "getComponentTypeID (class_of mArgs) s = (i, s1)" by fastforce
  show ?thesis using assms i by (simp add: addComponent_def Let_def)
qed

lemma addComponent_returns_start:
  "\<exists>e' s'. addComponent X this p mArgs e TypeIDs_start = Inr (p, e', s')"
  by (rule addComponent_returns) (simp add: getComponentTypeID_start maxComponents_def)

section \<open>The claims\<close>

text \<open>
  Claim C1. When \<open>E.addComponent<T>(args)\<close> has returned, \<open>E.hasComponent<T>()\<close> is true
  and \<open>E.getComponent<T>()\<close> returns the reference that the call returned: it denotes the
  object the call constructed, linked to the entity and initialised, which is the new
  last element of the owned collection. (\<open>p\<close> is the address of a new object, so no
  component of the entity has it.)
\<close>

theorem addComponent_has_get:
  assumes add: "addComponent X this p mArgs e s = Inr (c, e', s')"
    and fresh: "p \<notin> fst ` set (components e)"
  shows "hasComponent (class_of mArgs) e' s' = Inr (True, s') \<and>
         getComponent (class_of mArgs) e' s' = Inr (c, s') \<and>
         components e' =
           components e @
             [(c, Component_init ((new_Component X mArgs)\<lparr>entity := Some this\<rparr>))] \<and>
         component_at e' c =
           Some (Component_init ((new_Component X mArgs)\<lparr>entity := Some this\<rparr>))"
proof -
  note r = addComponent_Inr [OF add fresh]
  let ?i = "fst (getComponentTypeID (class_of mArgs) s)"
  have bit: "bit (set_bit ?i (componentBitSet e)) ?i"
    using r(3) by (simp add: bit_set_bit_iff maxComponents_def)
  have at: "component_at e' p =
      Some (Component_init ((new_Component X mArgs)\<lparr>entity := Some this\<rparr>))"
    unfolding component_at_def r(4) using map_of_append_fresh [OF fresh] by simp
  show ?thesis
    using r(2,3) bit at
    by (simp add: r(1) hasComponent_def getComponent_def) (simp add: r(4))
qed

theorem addComponent_has_get_witness:
  "10 \<notin> fst ` set (components new_Entity) \<and>
   (\<exists>e' s'. addComponent sample_externals 1 10 Args_Component new_Entity TypeIDs_start =
              Inr (10, e', s') \<and>
            hasComponent Component_T e' s' = Inr (True, s') \<and>
            getComponent Component_T e' s' = Inr (10, s') \<and>
            component_at e' 10 = Some \<lparr>entity = Some 1, members = Component_members\<rparr>)"
proof -
  have fresh: "10 \<notin> fst ` set (components new_Entity)"
    by (simp add: new_Entity_def)
  obtain e' s' where
    add: "addComponent sample_externals 1 10 Args_Component new_Entity TypeIDs_start =
            Inr (10, e', s')"
    using addComponent_returns_start by blast
  from addComponent_has_get [OF add fresh] add fresh show ?thesis
    by (auto simp: Component_init_def)
qed

text \<open>
  Claim C2. Let \<open>destroy()\<close> be called on an entity of a manager whose group indices hold
  valid pointers, and \<open>refresh()\<close> after it. Then both calls return, no index of the
  \<open>maxGroups\<close> groups refers to the entity any more, and the entity is gone from the
  primary collection.
\<close>

theorem destroy_then_refresh:
  assumes ok: "Manager_ok m"
    and live: "map_of (entities m) a \<noteq> None"
  shows "\<exists>m1 m2. through a (\<lambda>e. Inr (destroy e)) m = Inr m1 \<and> refresh m1 = Inr m2 \<and>
           (\<forall>g \<in> {..<maxGroups}. a \<notin> set (groupedEntities m2 g)) \<and>
           a \<notin> fst ` set (entities m2)"
proof -
  from live obtain e where e: "map_of (entities m) a = Some e" by auto
  define m1 where "m1 = m\<lparr>entities := store a (destroy e) (entities m)\<rparr>"
  have t: "through a (\<lambda>e. Inr (destroy e)) m = Inr m1"
    by (simp add: through_def e m1_def)
  have lookup: "map_of (entities m1) a = Some (destroy e)"
    by (simp add: m1_def map_of_store e)
  have "pointers_valid m1"
    using ok by (auto simp: Manager_ok_def pointers_valid_def m1_def map_of_store)
  from refresh_total [OF this] obtain m2 where m2: "refresh m1 = Inr m2" by blast
  have not_surv: "\<And>g. \<not> survives m1 g a"
    by (simp add: survives_def lookup isActive_def destroy_def)
  have groups: "\<forall>g \<in> {..<maxGroups}. a \<notin> set (groupedEntities m2 g)"
    using refresh_Inr(2) [OF m2] not_surv by auto
  have "entities m2 = filter (\<lambda>(p, e). isActive e) (store a (destroy e) (entities m))"
    using refresh_Inr(1) [OF m2] by (simp add: m1_def)
  moreover have "a \<notin> fst ` set (filter (\<lambda>(p, e). isActive e) (store a (destroy e) (entities m)))"
    by (rule filter_active_store_destroy [OF _ e])
       (use ok in \<open>simp_all add: Manager_ok_def isActive_def destroy_def\<close>)
  ultimately show ?thesis using t m2 groups by auto
qed

theorem destroy_then_refresh_witness:
  "Manager_ok sample_Manager \<and> map_of (entities sample_Manager) 1 \<noteq> None \<and>
   (\<exists>m1 m2. through 1 (\<lambda>e. Inr (destroy e)) sample_Manager = Inr m1 \<and>
            refresh m1 = Inr m2 \<and>
            1 \<notin> set (groupedEntities m2 0) \<and> 1 \<notin> fst ` set (entities m2))"
proof -
  have live: "map_of (entities sample_Manager) 1 \<noteq> None"
    by (simp add: sample_Manager_def)
  have "(0::nat) \<in> {..<maxGroups}" by (simp add: maxGroups_def)
  with destroy_then_refresh [OF sample_Manager_ok live] sample_Manager_ok live
  show ?thesis by blast
qed

text \<open>
  Claim C3. Two calls of \<open>addComponent<T>\<close> on one entity, with any constructor
  arguments: both objects are in the owned collection afterwards, the first still at its
  address, and \<open>getComponent<T>()\<close> returns the reference of the second call, which is
  not that of the first.
\<close>

theorem addComponent_twice:
  assumes add1: "addComponent X this p1 args1 e s = Inr (c1, e1, s1)"
    and add2: "addComponent X this p2 args2 e1 s1 = Inr (c2, e2, s2)"
    and same: "class_of args2 = class_of args1"
    and fresh1: "p1 \<notin> fst ` set (components e)"
    and fresh2: "p2 \<notin> fst ` set (components e1)"
  shows "components e2 =
           components e @
             [(c1, Component_init ((new_Component X args1)\<lparr>entity := Some this\<rparr>)),
              (c2, Component_init ((new_Component X args2)\<lparr>entity := Some this\<rparr>))] \<and>
         c1 \<noteq> c2 \<and>
         component_at e2 c1 =
           Some (Component_init ((new_Component X args1)\<lparr>entity := Some this\<rparr>)) \<and>
         component_at e2 c2 =
           Some (Component_init ((new_Component X args2)\<lparr>entity := Some this\<rparr>)) \<and>
         getComponent (class_of args1) e2 s2 = Inr (c2, s2)"
proof -
  note r1 = addComponent_Inr [OF add1 fresh1]
  note r2 = addComponent_Inr [OF add2 fresh2]
  let ?o1 = "Component_init ((new_Component X args1)\<lparr>entity := Some this\<rparr>)"
  let ?o2 = "Component_init ((new_Component X args2)\<lparr>entity := Some this\<rparr>)"
  have cs1: "components e1 = components e @ [(p1, ?o1)]"
    by (simp add: r1(4))
  have cs2: "components e2 = components e @ [(p1, ?o1), (p2, ?o2)]"
    by (simp add: r2(4) cs1)
  have ne: "p1 \<noteq> p2"
    using fresh2 by (auto simp: cs1)
  have at1: "map_of (components e2) p1 = Some ?o1"
    unfolding cs2 by (rule map_of_append_fresh2 [OF fresh1 ne])
  have "map_of ((components e @ [(p1, ?o1)]) @ [(p2, ?o2)]) p2 = Some ?o2"
    by (rule map_of_append_fresh) (use fresh2 in \<open>simp add: cs1\<close>)
  then have at2: "map_of (components e2) p2 = Some ?o2"
    by (simp add: cs2)
  have get: "getComponent (class_of args1) e2 s2 = Inr (p2, s2)"
    using r2(2,3) by (simp add: getComponent_def same) (simp add: r2(4) same)
  show ?thesis
    using cs2 ne at1 at2 get by (simp add: r1(1) r2(1) component_at_def)
qed

theorem addComponent_twice_witness:
  "\<exists>e1 s1 e2 s2.
     addComponent sample_externals 1 10
       (Args_TransformComponent (TC_xy (Finite 1) (Finite 2))) new_Entity TypeIDs_start =
       Inr (10, e1, s1) \<and>
     addComponent sample_externals 1 11
       (Args_TransformComponent (TC_xy (Finite 5) (Finite 7))) e1 s1 = Inr (11, e2, s2) \<and>
     map fst (components e2) = [10, 11] \<and>
     getComponent TransformComponent_T e2 s2 = Inr (11, s2)"
proof -
  let ?a1 = "Args_TransformComponent (TC_xy (Finite 1) (Finite 2))"
  let ?a2 = "Args_TransformComponent (TC_xy (Finite 5) (Finite 7))"
  have fresh1: "10 \<notin> fst ` set (components new_Entity)"
    by (simp add: new_Entity_def)
  obtain e1 s1 where
    add1: "addComponent sample_externals 1 10 ?a1 new_Entity TypeIDs_start = Inr (10, e1, s1)"
    using addComponent_returns_start by blast
  note r1 = addComponent_Inr [OF add1 fresh1]
  have fresh2: "11 \<notin> fst ` set (components e1)"
    by (simp add: r1(4) new_Entity_def)
  have "fst (getComponentTypeID (class_of ?a2) s1) < maxComponents"
    using r1(2,3) by simp
  from addComponent_returns [OF this] obtain e2 s2 where
    add2: "addComponent sample_externals 1 11 ?a2 e1 s1 = Inr (11, e2, s2)"
    by blast
  have same: "class_of ?a2 = class_of ?a1" by simp
  from addComponent_twice [OF add1 add2 same fresh1 fresh2]
  have "components e2 =
          components new_Entity @
            [(10, Component_init ((new_Component sample_externals ?a1)\<lparr>entity := Some 1\<rparr>)),
             (11, Component_init ((new_Component sample_externals ?a2)\<lparr>entity := Some 1\<rparr>))]"
    and "getComponent TransformComponent_T e2 s2 = Inr (11, s2)"
    by simp_all
  then have "addComponent sample_externals 1 10 ?a1 new_Entity TypeIDs_start = Inr (10, e1, s1) \<and>
     addComponent sample_externals 1 11 ?a2 e1 s1 = Inr (11, e2, s2) \<and>
     map fst (components e2) = [10, 11] \<and>
     getComponent TransformComponent_T e2 s2 = Inr (11, s2)"
    using add1 add2 by (simp add: new_Entity_def)
  then show ?thesis by (intro exI)
qed

text \<open>
  Claim C4. Let \<open>E\<close> be an active entity that the index of group \<open>g\<close> does not refer to,
  in a manager whose group indices hold valid pointers. Then \<open>E.addGroup(g)\<close> and
  \<open>refresh()\<close> return, and \<open>getGroup(g)\<close> contains the address of \<open>E\<close> exactly once.
\<close>

theorem addGroup_then_refresh:
  assumes valid: "pointers_valid m"
    and e: "map_of (entities m) a = Some e"
    and act: "isActive e"
    and new: "a \<notin> set (groupedEntities m g)"
    and g: "g < maxGroups"
  shows "\<exists>m1 m2 v. addGroup a g m = Inr m1 \<and> refresh m1 = Inr m2 \<and>
           getGroup g m2 = Inr v \<and> count_list v a = 1"
proof -
  define e' where "e' = e\<lparr>groupBitSet := set_bit g (groupBitSet e)\<rparr>"
  define m1 where "m1 = m\<lparr>entities := store a e' (entities m),
                          groupedEntities := (groupedEntities m)(g := groupedEntities m g @ [a])\<rparr>"
  have m1: "addGroup a g m = Inr m1"
    using g e by (simp add: addGroup_def through_def addToGroup_def m1_def e'_def)
  have lookup: "map_of (entities m1) a = Some e'"
    by (simp add: m1_def map_of_store e)
  have "pointers_valid m1"
    using valid e by (auto simp: pointers_valid_def m1_def map_of_store)
  from refresh_total [OF this] obtain m2 where m2: "refresh m1 = Inr m2" by blast
  have "bit (groupBitSet e') g"
    using g by (simp add: e'_def bit_set_bit_iff maxGroups_def)
  then have surv: "survives m1 g a"
    using act by (simp add: survives_def lookup e'_def isActive_def)
  have "groupedEntities m2 g = filter (survives m1 g) (groupedEntities m g @ [a])"
    using refresh_Inr(2) [OF m2 g] by (simp add: m1_def)
  then have "count_list (groupedEntities m2 g) a = 1"
    using new surv by (simp add: count_list_0_iff)
  then show ?thesis using m1 m2 g by (simp add: getGroup_def)
qed

theorem addGroup_then_refresh_witness:
  "pointers_valid sample_Manager \<and> map_of (entities sample_Manager) 3 = Some new_Entity \<and>
   isActive new_Entity \<and> 3 \<notin> set (groupedEntities sample_Manager 1) \<and> 1 < maxGroups \<and>
   (\<exists>m1 m2 v. addGroup 3 1 sample_Manager = Inr m1 \<and> refresh m1 = Inr m2 \<and>
              getGroup 1 m2 = Inr v \<and> count_list v 3 = 1)"
proof -
  have e: "map_of (entities sample_Manager) 3 = Some new_Entity"
    by (simp add: sample_Manager_def)
  have act: "isActive new_Entity"
    by (simp add: isActive_def new_Entity_def)
  have new: "3 \<notin> set (groupedEntities sample_Manager 1)"
    by (simp add: sample_Manager_def)
  have g: "1 < maxGroups"
    by (simp add: maxGroups_def)
  from addGroup_then_refresh [OF sample_pointers_valid e act new g]
       sample_pointers_valid e act new g
  show ?thesis by simp
qed

text \<open>
  Claim C5. \<open>addToGroup\<close> does not look for the entity in the index: two calls with the
  same entity and the same group \<open>g\<close> (below \<open>maxGroups\<close>) return, each makes the index
  of \<open>g\<close> one longer, and the index ends with two more references to the entity than it
  had, whatever it held before.
\<close>

theorem addToGroup_twice:
  assumes "g < maxGroups"
  shows "\<exists>m1 m2. addToGroup a g m = Inr m1 \<and> addToGroup a g m1 = Inr m2 \<and>
           length (groupedEntities m1 g) = length (groupedEntities m g) + 1 \<and>
           length (groupedEntities m2 g) = length (groupedEntities m1 g) + 1 \<and>
           groupedEntities m2 g = groupedEntities m g @ [a, a] \<and>
           count_list (groupedEntities m2 g) a = count_list (groupedEntities m g) a + 2"
  using assms by (simp add: addToGroup_def)

theorem addToGroup_twice_witness:
  "0 < maxGroups \<and>
   (\<exists>m1 m2. addToGroup 1 0 sample_Manager = Inr m1 \<and> addToGroup 1 0 m1 = Inr m2 \<and>
            groupedEntities m2 0 = [1, 2, 3, 1, 1, 1] \<and>
            count_list (groupedEntities m2 0) 1 = 4)"
proof -
  have g: "0 < maxGroups" by (simp add: maxGroups_def)
  have old: "groupedEntities sample_Manager 0 = [1, 2, 3, 1]"
    by (simp add: sample_Manager_def)
  from addToGroup_twice [OF g, of 1 sample_Manager] g show ?thesis
    by (auto simp: old)
qed

lemma update_entities_Inr:
  "update_entities X es = Inr (calls, es') \<Longrightarrow>
   calls = map fst es \<and>
   list_all2 (\<lambda>(p, e) (p', e'). p' = p \<and> Entity_update X e = Inr e') es es'"
  by (induction es arbitrary: calls es') (auto split: sum.splits prod.splits)

lemma update_entities_total:
  "\<forall>(p, e) \<in> set es. \<not> isl (Entity_update X e) \<Longrightarrow>
   \<exists>es'. update_entities X es = Inr (map fst es, es')"
proof (induction es)
  case Nil
  then show ?case by simp
next
  case (Cons pe es)
  obtain p e where pe: "pe = (p, e)" by (cases pe)
  from Cons.prems pe obtain e' where e': "Entity_update X e = Inr e'"
    by (cases "Entity_update X e") auto
  from Cons obtain es' where "update_entities X es = Inr (map fst es, es')" by auto
  with pe e' show ?case by simp
qed

text \<open>
  Claim C6. \<open>Manager::update\<close> calls \<open>update()\<close> on the entities of the primary
  collection, all of them and in the order of the collection: the receivers of the calls
  are the addresses of the collection as they stand in it, and every entity is replaced
  by what its own \<open>update()\<close> makes of it. The active flag is not read, so a destroyed
  entity that \<open>refresh\<close> has not yet removed is updated like any other. (The hypothesis:
  no call runs into undefined behaviour.)
\<close>

theorem Manager_update_every_entity:
  assumes "\<forall>(p, e) \<in> set (entities m). \<not> isl (Entity_update X e)"
  shows "\<exists>m'. Manager_update X m = Inr (map fst (entities m), m') \<and>
           list_all2 (\<lambda>(p, e) (p', e'). p' = p \<and> Entity_update X e = Inr e')
             (entities m) (entities m')"
proof -
  from update_entities_total [OF assms] obtain es' where
    es': "update_entities X (entities m) = Inr (map fst (entities m), es')" by blast
  from update_entities_Inr [OF es'] es' show ?thesis
    by (auto simp: Manager_update_def)
qed

lemma sample_Entity_update:
  "Entity_update sample_externals (new_Entity\<lparr>groupBitSet := w\<rparr>) =
     Inr (new_Entity\<lparr>groupBitSet := w\<rparr>)"
  "Entity_update sample_externals new_Entity = Inr new_Entity"
  "Entity_update sample_externals
     (destroy (new_Entity
        \<lparr>components :=
           [(20, \<lparr>entity = Some 2,
                  members = Transform_members near_TransformComponent\<rparr>)],
         groupBitSet := w\<rparr>)) =
   Inr (destroy (new_Entity
        \<lparr>components :=
           [(20, \<lparr>entity = Some 2,
                  members = Transform_members
                    (near_TransformComponent
                       \<lparr>position := \<lparr>vec_x = Finite 8, vec_y = Finite 7\<rparr>\<rparr>)\<rparr>)],
         groupBitSet := w\<rparr>))"
  by (simp_all add: Entity_update_def new_Entity_def destroy_def Component_update_def near_update)

theorem Manager_update_every_entity_witness:
  "\<not> isActive (the (map_of (entities sample_Manager) 2)) \<and>
   (\<exists>m'. Manager_update sample_externals sample_Manager = Inr ([1, 2, 3], m') \<and>
         map_of (entities m') 2 =
           Some (destroy (new_Entity
             \<lparr>components :=
                [(20, \<lparr>entity = Some 2,
                       members = Transform_members
                         (near_TransformComponent
                            \<lparr>position := \<lparr>vec_x = Finite 8, vec_y = Finite 7\<rparr>\<rparr>)\<rparr>)],
              groupBitSet := set_bit 0 0\<rparr>)))"
proof -
  have inactive: "\<not> isActive (the (map_of (entities sample_Manager) 2))"
    by (simp add: sample_Manager_def isActive_def destroy_def)
  have defined: "\<forall>(p, e) \<in> set (entities sample_Manager). \<not> isl (Entity_update sample_externals e)"
    by (simp add: sample_Manager_def sample_Entity_update)
  from Manager_update_every_entity [OF defined] obtain m' where
    m': "Manager_update sample_externals sample_Manager =
           Inr (map fst (entities sample_Manager), m')"
    and all: "list_all2 (\<lambda>(p, e) (p', e'). p' = p \<and> Entity_update sample_externals e = Inr e')
               (entities sample_Manager) (entities m')"
    by blast
  from all obtain x y z where "entities m' = [x, y, z]"
    by (auto simp: sample_Manager_def list_all2_Cons1)
  with all have "map_of (entities m') 2 =
      Some (destroy (new_Entity
        \<lparr>components :=
           [(20, \<lparr>entity = Some 2,
                  members = Transform_members
                    (near_TransformComponent
                       \<lparr>position := \<lparr>vec_x = Finite 8, vec_y = Finite 7\<rparr>\<rparr>)\<rparr>)],
         groupBitSet := set_bit 0 0\<rparr>))"
    by (cases x, cases y, cases z) (auto simp: sample_Manager_def sample_Entity_update)
  moreover have "map fst (entities sample_Manager) = [1, 2, 3]"
    by (simp add: sample_Manager_def)
  ultimately show ?thesis using m' inactive by auto
qed

text \<open>
  Claim C7. The first pass of \<open>refresh\<close> is a filter. In a manager whose group indices
  hold valid pointers, \<open>refresh\<close> returns, and for every group \<open>g\<close> the new index is the
  old one restricted, in its order, to the references whose entity is active and has the
  bit of \<open>g\<close> set: exactly the references to an inactive entity, or to one that is not in
  \<open>g\<close>, are removed.
\<close>

theorem refresh_is_filter:
  assumes "pointers_valid m"
  shows "\<exists>m'. refresh m = Inr m' \<and>
           (\<forall>g \<in> {..<maxGroups}.
              groupedEntities m' g = filter (survives m g) (groupedEntities m g))"
  using refresh_total [OF assms] refresh_Inr(2) by fastforce

theorem refresh_is_filter_witness:
  "pointers_valid sample_Manager \<and>
   groupedEntities sample_Manager 0 = [1, 2, 3, 1] \<and>
   (\<exists>m'. refresh sample_Manager = Inr m' \<and> groupedEntities m' 0 = [1, 1])"
proof -
  have old: "groupedEntities sample_Manager 0 = [1, 2, 3, 1]"
    by (simp add: sample_Manager_def)
  have "(0::nat) \<in> {..<maxGroups}" by (simp add: maxGroups_def)
  with refresh_is_filter [OF sample_pointers_valid] obtain m' where
    "refresh sample_Manager = Inr m'"
    "groupedEntities m' 0 = filter (survives sample_Manager 0) (groupedEntities sample_Manager 0)"
    by blast
  then have "refresh sample_Manager = Inr m'" and "groupedEntities m' 0 = [1, 1]"
    by (simp_all only: old sample_survivors)
  then show ?thesis
    using sample_pointers_valid old by simp
qed

section \<open>The primary collection under the calls of a client\<close>

lemma through_addresses:
  "through a f m = Inr m' \<Longrightarrow> addresses m' = addresses m"
  by (auto simp: through_def addresses_def split: option.splits sum.splits)

lemma update_entities_fst:
  "update_entities X es = Inr (calls, es') \<Longrightarrow> map fst es' = map fst es"
  by (induction es arbitrary: calls es') (auto split: sum.splits prod.splits)

lemma Manager_update_addresses:
  "Manager_update X m = Inr (calls, m') \<Longrightarrow> addresses m' = addresses m"
  by (auto simp: Manager_update_def addresses_def split: sum.splits prod.splits
           dest: update_entities_fst)

lemma Manager_draw_addresses: "addresses (Manager_draw m) = addresses m"
  by (simp add: Manager_draw_def addresses_def case_prod_unfold)

lemma addToGroup_addresses:
  "addToGroup a g m = Inr m' \<Longrightarrow> addresses m' = addresses m"
  by (auto simp: addToGroup_def addresses_def split: if_splits)

lemma addGroup_addresses:
  "addGroup a g m = Inr m' \<Longrightarrow> addresses m' = addresses m"
  by (auto simp: addGroup_def split: sum.splits
           dest!: through_addresses addToGroup_addresses)

lemma store_addresses: "addresses (m\<lparr>entities := store a v (entities m)\<rparr>) = addresses m"
  by (simp add: addresses_def)

text \<open>No call but \<open>refresh\<close> takes an entity out of the primary collection.\<close>

lemma exec_addresses:
  assumes "exec X c w = Inr w'" and "c \<noteq> Call_refresh"
  shows "set (addresses (manager w)) \<subseteq> set (addresses (manager w'))"
proof (cases c)
  case (Call_addEntity p)
  with assms show ?thesis by (auto simp: addEntity_def addresses_def)
next
  case Call_update
  with assms show ?thesis
    by (auto simp: lift_Manager_def split: sum.splits prod.splits
             dest!: Manager_update_addresses)
next
  case Call_draw
  with assms show ?thesis by (auto simp: Manager_draw_addresses)
next
  case Call_refresh
  with assms show ?thesis by simp
next
  case (Call_addToGroup a g)
  with assms show ?thesis
    by (auto simp: lift_Manager_def split: sum.splits dest!: addToGroup_addresses)
next
  case (Call_Entity_update a)
  with assms show ?thesis
    by (auto simp: lift_Manager_def split: sum.splits dest!: through_addresses)
next
  case (Call_Entity_draw a)
  with assms show ?thesis
    by (auto simp: lift_Manager_def split: sum.splits dest!: through_addresses)
next
  case (Call_destroy a)
  with assms show ?thesis
    by (auto simp: lift_Manager_def split: sum.splits dest!: through_addresses)
next
  case (Call_addGroup a g)
  with assms show ?thesis
    by (auto simp: lift_Manager_def split: sum.splits dest!: addGroup_addresses)
next
  case (Call_delGroup a g)
  with assms show ?thesis
    by (auto simp: lift_Manager_def split: sum.splits dest!: through_addresses)
next
  case (Call_addComponent a p mArgs)
  with assms show ?thesis
    by (auto simp: store_addresses split: option.splits sum.splits prod.splits)
next
  case (Call_hasComponent a T)
  with assms show ?thesis
    by (auto split: option.splits sum.splits prod.splits)
next
  case (Call_getComponent a T)
  with assms show ?thesis
    by (auto split: option.splits sum.splits prod.splits)
qed

text \<open>One call: an entity that is there before and gone after was inactive, and the call
  was \<open>refresh\<close>.\<close>

lemma exec_removal:
  assumes ex: "exec X c w = Inr w'" and pre: "present a w" and post: "\<not> present a w'"
  shows "c = Call_refresh \<and> (\<exists>e. map_of (entities (manager w)) a = Some e \<and> \<not> isActive e)"
proof (cases "c = Call_refresh")
  case False
  from exec_addresses [OF ex False] pre post show ?thesis
    by (auto simp: present_def)
next
  case True
  with ex obtain m' where m': "refresh (manager w) = Inr m'" and w': "w' = w\<lparr>manager := m'\<rparr>"
    by (auto simp: lift_Manager_def split: sum.splits)
  from refresh_Inr(1) [OF m'] w'
  have "entities (manager w') = filter (\<lambda>(p, e). isActive e) (entities (manager w))"
    by simp
  with pre post filter_all_gone [of a "entities (manager w)"] show ?thesis
    using True by (simp add: present_def addresses_def)
qed

lemma destroy_inactive: "\<not> isActive (destroy e)"
  by (simp add: isActive_def destroy_def)

text \<open>
  Claim C8. Take any sequence of calls that runs without undefined behaviour, and an
  entity that is in the primary collection before it and not after it. Then one of the
  calls is a \<open>refresh\<close> before which the entity was in the collection with its active
  flag false, and after which it was gone: the entity left through the inactive state.
  No call removes an entity whose flag is true.
\<close>

theorem removal_passes_through_inactive:
  assumes "run X cs w = Inr w'" and "present a w" and "\<not> present a w'"
  shows "\<exists>cs1 cs2 w1 w2 e.
           cs = cs1 @ Call_refresh # cs2 \<and> run X cs1 w = Inr w1 \<and>
           map_of (entities (manager w1)) a = Some e \<and> \<not> isActive e \<and>
           exec X Call_refresh w1 = Inr w2 \<and> \<not> present a w2"
  using assms
proof (induction cs arbitrary: w)
  case Nil
  then show ?case by simp
next
  case (Cons c cs)
  from Cons.prems(1) obtain wm where wm: "exec X c w = Inr wm" and rest: "run X cs wm = Inr w'"
    by (auto split: sum.splits)
  show ?case
  proof (cases "present a wm")
    case True
    from Cons.IH [OF rest True Cons.prems(3)] obtain cs1 cs2 w1 w2 e where
      h: "cs = cs1 @ Call_refresh # cs2" "run X cs1 wm = Inr w1"
         "map_of (entities (manager w1)) a = Some e" "\<not> isActive e"
         "exec X Call_refresh w1 = Inr w2" "\<not> present a w2"
      by blast
    have "c # cs = (c # cs1) @ Call_refresh # cs2" using h(1) by simp
    moreover have "run X (c # cs1) w = Inr w1" using wm h(2) by simp
    ultimately show ?thesis using h(3-6) by blast
  next
    case False
    from exec_removal [OF wm Cons.prems(2) False] obtain e where
      c: "c = Call_refresh" and e: "map_of (entities (manager w)) a = Some e" "\<not> isActive e"
      by blast
    have "c # cs = [] @ Call_refresh # cs" using c by simp
    moreover have "run X [] w = Inr w" by simp
    ultimately show ?thesis using e wm c False by blast
  qed
qed

theorem removal_passes_through_inactive_witness:
  "present 1 sample_World \<and>
   (\<exists>w'. run sample_externals [Call_destroy 1, Call_refresh] sample_World = Inr w' \<and>
         \<not> present 1 w' \<and>
         (\<exists>cs1 cs2 w1 w2 e.
            [Call_destroy 1, Call_refresh] = cs1 @ Call_refresh # cs2 \<and>
            run sample_externals cs1 sample_World = Inr w1 \<and>
            map_of (entities (manager w1)) 1 = Some e \<and> \<not> isActive e \<and>
            exec sample_externals Call_refresh w1 = Inr w2 \<and> \<not> present 1 w2))"
proof -
  have pre: "present 1 sample_World"
    by (simp add: present_def addresses_def sample_World_def sample_Manager_def)
  define m1 where
    "m1 = sample_Manager
            \<lparr>entities := store 1 (destroy (new_Entity\<lparr>groupBitSet := set_bit 0 0\<rparr>))
                           (entities sample_Manager)\<rparr>"
  have d: "exec sample_externals (Call_destroy 1) sample_World = Inr (sample_World\<lparr>manager := m1\<rparr>)"
    by (simp add: lift_Manager_def through_def sample_World_def m1_def)
       (simp add: sample_Manager_def)
  have "pointers_valid m1"
    using sample_pointers_valid
    by (auto simp: pointers_valid_def m1_def map_of_store)
  from refresh_total [OF this] obtain m2 where m2: "refresh m1 = Inr m2" by blast
  have r: "run sample_externals [Call_destroy 1, Call_refresh] sample_World =
             Inr (sample_World\<lparr>manager := m2\<rparr>)"
    unfolding run.simps d by (simp add: m2 lift_Manager_def)
  have "entities m2 = filter (\<lambda>(p, e). isActive e) (entities m1)"
    by (rule refresh_Inr(1) [OF m2])
  then have post: "\<not> present 1 (sample_World\<lparr>manager := m2\<rparr>)"
    by (simp add: present_def addresses_def m1_def sample_Manager_def destroy_inactive)
  from removal_passes_through_inactive [OF r pre post] pre r post
  show ?thesis by blast
qed

text \<open>
  Claim C9, as amended. A \<open>TransformComponent\<close> with velocity \<open>(1, 0)\<close> and speed 3 (and
  a \<open>Norm\<close> that gives that velocity the norm 1) takes the branch of the non-zero norm:
  the steps are the integers 3 and 0. When \<open>position.x\<close> is finite and \<open>position.x + 3\<close>
  is a value of \<open>float\<close>, one \<open>update()\<close> makes \<open>position.x\<close> exactly 3 larger, and it
  leaves \<open>position.y\<close> as it is.
\<close>

theorem update_unit_velocity:
  assumes vel: "velocity t = \<lparr>vec_x = Finite 1, vec_y = Finite 0\<rparr>"
    and sp: "speed t = Finite 3"
    and nrm: "Norm X (velocity t) = Finite 1"
    and px: "vec_x (position t) = Finite a"
    and exact: "is_binary32 (Finite (a + 3))"
    and py: "is_binary32 (vec_y (position t))"
  shows "\<exists>t'. TransformComponent_update X t = Inr t' \<and>
           vec_x (position t') = Finite (a + 3) \<and>
           vec_y (position t') = vec_y (position t)"
  using update_unit_step [OF vel sp nrm] px exact fadd_zero [OF py]
  by (simp add: is_binary32_def)

theorem update_unit_velocity_witness:
  "velocity near_TransformComponent = \<lparr>vec_x = Finite 1, vec_y = Finite 0\<rparr> \<and>
   speed near_TransformComponent = Finite 3 \<and>
   Norm sample_externals (velocity near_TransformComponent) = Finite 1 \<and>
   vec_x (position near_TransformComponent) = Finite 5 \<and>
   is_binary32 (Finite (5 + 3)) \<and>
   is_binary32 (vec_y (position near_TransformComponent)) \<and>
   (\<exists>t'. TransformComponent_update sample_externals near_TransformComponent = Inr t' \<and>
         vec_x (position t') = Finite 8 \<and> vec_y (position t') = Finite 7)"
proof -
  have px: "vec_x (position near_TransformComponent) = Finite 5"
    by (simp add: near_position)
  have exact: "is_binary32 (Finite (5 + 3))"
    using small_integers_are_floats [of 8] by simp
  have py: "is_binary32 (vec_y (position near_TransformComponent))"
    using small_integers_are_floats [of 7] by (simp add: near_position)
  from update_unit_velocity [OF near_velocity near_speed near_Norm px exact py]
       near_velocity near_speed near_Norm px exact py
  show ?thesis by (simp add: near_position)
qed

text \<open>
  The claim as it was stated fails where the floats are more than 3 apart. At
  \<open>position.x = 2^25 = 33554432\<close>, itself a float, with velocity \<open>(1, 0)\<close> and speed 3,
  \<open>update()\<close> makes \<open>position.x\<close> the float nearest to \<open>33554435\<close>, which is
  \<open>33554436\<close>: 4 larger, not 3.
\<close>

theorem update_far_right_adds_4:
  "velocity far_TransformComponent = \<lparr>vec_x = Finite 1, vec_y = Finite 0\<rparr> \<and>
   speed far_TransformComponent = Finite 3 \<and>
   vec_x (position far_TransformComponent) = Finite 33554432 \<and>
   is_binary32 (Finite 33554432) \<and>
   TransformComponent_update sample_externals far_TransformComponent =
     Inr (far_TransformComponent\<lparr>position := \<lparr>vec_x = Finite 33554436, vec_y = Finite 0\<rparr>\<rparr>) \<and>
   Entity_update sample_externals
     (new_Entity\<lparr>components :=
        [(20, \<lparr>entity = Some 2, members = Transform_members far_TransformComponent\<rparr>)]\<rparr>) =
     Inr (new_Entity\<lparr>components :=
        [(20, \<lparr>entity = Some 2,
               members = Transform_members
                 (far_TransformComponent
                    \<lparr>position := \<lparr>vec_x = Finite 33554436, vec_y = Finite 0\<rparr>\<rparr>)\<rparr>)]\<rparr>) \<and>
   Finite 33554436 \<noteq> Finite (33554432 + 3)"
proof -
  have v: "velocity far_TransformComponent = \<lparr>vec_x = Finite 1, vec_y = Finite 0\<rparr>"
    by (simp add: far_TransformComponent_def float_of_int_0 float_of_int_1)
  have s: "speed far_TransformComponent = Finite 3"
    by (simp add: far_TransformComponent_def TransformComponent_init_def
                  TransformComponent_members_def float_of_int_3)
  have p: "position far_TransformComponent = \<lparr>vec_x = Finite 33554432, vec_y = Finite 0\<rparr>"
    by (simp add: far_TransformComponent_def TransformComponent_init_def
                  TransformComponent_members_def sample_externals_def)
  have n: "Norm sample_externals (velocity far_TransformComponent) = Finite 1"
    by (simp add: v sample_externals_def Norm_sqrt_unit)
  have r: "round_f32 (33554432 + 3) = Finite 33554436"
    using round_f32_far by simp
  have u: "TransformComponent_update sample_externals far_TransformComponent =
      Inr (far_TransformComponent\<lparr>position := \<lparr>vec_x = Finite 33554436, vec_y = Finite 0\<rparr>\<rparr>)"
    using update_unit_step [OF v s n] r by (simp add: p round_f32_0)
  have eu: "Entity_update sample_externals
     (new_Entity\<lparr>components :=
        [(20, \<lparr>entity = Some 2, members = Transform_members far_TransformComponent\<rparr>)]\<rparr>) =
     Inr (new_Entity\<lparr>components :=
        [(20, \<lparr>entity = Some 2,
               members = Transform_members
                 (far_TransformComponent
                    \<lparr>position := \<lparr>vec_x = Finite 33554436, vec_y = Finite 0\<rparr>\<rparr>)\<rparr>)]\<rparr>)"
    by (simp add: Entity_update_def Component_update_def new_Entity_def u)
  show ?thesis
    using round_f32_far_exact by (simp add: v s p u eu is_binary32_def)
qed

text \<open>
  Claim C10. When \<open>addComponent<TransformComponent>(args)\<close> has returned, whichever of
  the five constructors the arguments selected and whatever floats they are, the
  component it attached has velocity \<open>(0, 0)\<close>: no constructor writes the velocity, and
  \<open>init()\<close>, which \<open>addComponent\<close> calls last, zeroes it. An \<open>update()\<close> of that component
  (with a \<open>Norm\<close> that gives the zero vector the norm 0) returns and leaves the position
  unchanged.
\<close>

theorem addComponent_TransformComponent_velocity:
  assumes add: "addComponent X this p (Args_TransformComponent a) e s = Inr (c, e', s')"
    and fresh: "p \<notin> fst ` set (components e)"
    and floats: "args_are_floats a"
    and nrm: "Norm X \<lparr>vec_x = Finite 0, vec_y = Finite 0\<rparr> = Finite 0"
  shows "\<exists>t. component_at e' c =
               Some \<lparr>entity = Some this, members = Transform_members t\<rparr> \<and>
             velocity t = \<lparr>vec_x = Finite 0, vec_y = Finite 0\<rparr> \<and>
             (\<exists>t'. TransformComponent_update X t = Inr t' \<and> position t' = position t)"
proof -
  define t where "t = TransformComponent_init (TransformComponent_new X a)"
  note r = addComponent_Inr [OF add fresh]
  have "component_at e' p =
      Some (Component_init ((new_Component X (Args_TransformComponent a))\<lparr>entity := Some this\<rparr>))"
    unfolding component_at_def r(4) using map_of_append_fresh [OF fresh] by simp
  then have at: "component_at e' c =
      Some \<lparr>entity = Some this, members = Transform_members t\<rparr>"
    by (simp add: r(1) Component_init_def t_def)
  have v: "velocity t = \<lparr>vec_x = Finite 0, vec_y = Finite 0\<rparr>"
    by (simp add: t_def TransformComponent_init_def Zero_eq)
  have s: "speed t = Finite 3"
    by (simp add: t_def TransformComponent_init_def new_speed)
  have pos: "position t = position (TransformComponent_new X a)"
    by (simp add: t_def TransformComponent_init_def)
  have "TransformComponent_update X t = Inr t"
    by (rule update_zero_velocity [OF v s])
       (use nrm new_position_floats [OF floats] in \<open>simp_all add: v pos\<close>)
  with at v show ?thesis by blast
qed

theorem addComponent_TransformComponent_velocity_witness:
  "10 \<notin> fst ` set (components new_Entity) \<and>
   args_are_floats (TC_xyhws (Finite 5) (Finite 7) 64 64 (Finite 1)) \<and>
   Norm sample_externals \<lparr>vec_x = Finite 0, vec_y = Finite 0\<rparr> = Finite 0 \<and>
   (\<exists>e' s' t.
      addComponent sample_externals 1 10
        (Args_TransformComponent (TC_xyhws (Finite 5) (Finite 7) 64 64 (Finite 1)))
        new_Entity TypeIDs_start = Inr (10, e', s') \<and>
      component_at e' 10 =
        Some \<lparr>entity = Some 1, members = Transform_members t\<rparr> \<and>
      velocity t = \<lparr>vec_x = Finite 0, vec_y = Finite 0\<rparr> \<and>
      (\<exists>t'. TransformComponent_update sample_externals t = Inr t' \<and> position t' = position t))"
proof -
  let ?a = "TC_xyhws (Finite 5) (Finite 7) 64 64 (Finite 1)"
  have fresh: "10 \<notin> fst ` set (components new_Entity)"
    by (simp add: new_Entity_def)
  have floats: "args_are_floats ?a"
    using small_integers_are_floats [of 5] small_integers_are_floats [of 7]
          small_integers_are_floats [of 1]
    by simp
  have nrm: "Norm sample_externals \<lparr>vec_x = Finite 0, vec_y = Finite 0\<rparr> = Finite 0"
    by (simp add: sample_externals_def Norm_sqrt_zero)
  obtain e' s' where
    add: "addComponent sample_externals 1 10 (Args_TransformComponent ?a) new_Entity
            TypeIDs_start = Inr (10, e', s')"
    using addComponent_returns_start by blast
  from addComponent_TransformComponent_velocity [OF add fresh floats nrm] obtain t where
    t: "component_at e' 10 = Some \<lparr>entity = Some 1, members = Transform_members t\<rparr> \<and>
     velocity t = \<lparr>vec_x = Finite 0, vec_y = Finite 0\<rparr> \<and>
     (\<exists>t'. TransformComponent_update sample_externals t = Inr t' \<and> position t' = position t)"
    by blast
  have "\<exists>e' s' t.
      addComponent sample_externals 1 10 (Args_TransformComponent ?a)
        new_Entity TypeIDs_start = Inr (10, e', s') \<and>
      component_at e' 10 =
        Some \<lparr>entity = Some 1, members = Transform_members t\<rparr> \<and>
      velocity t = \<lparr>vec_x = Finite 0, vec_y = Finite 0\<rparr> \<and>
      (\<exists>t'. TransformComponent_update sample_externals t = Inr t' \<and> position t' = position t)"
    using conjI [OF add t] by (intro exI)
  then show ?thesis
    by (intro conjI fresh floats nrm)
qed

section \<open>The invariant the hypotheses name\<close>

text \<open>
  \<open>Manager_ok\<close> holds of a new manager and is kept by every call of the interface,
  provided \<open>new\<close> returns addresses that are not in use and \<open>addToGroup\<close> is given
  pointers to entities of the manager, as \<open>addGroup\<close> does.
\<close>

lemma new_Manager_ok: "Manager_ok new_Manager"
  by (simp add: Manager_ok_def pointers_valid_def new_Manager_def)

lemma map_of_append_None:
  "map_of es a \<noteq> None \<Longrightarrow> map_of (es @ es') a \<noteq> None"
  by (induction es) auto

lemma addEntity_ok:
  assumes "Manager_ok m" and "p \<notin> set (addresses m)"
  shows "Manager_ok (snd (addEntity p m))"
  using assms
  by (auto simp: Manager_ok_def pointers_valid_def addEntity_def addresses_def
           dest: map_of_append_None)

lemma Manager_ok_iff:
  "Manager_ok m =
     (distinct (addresses m) \<and>
      (\<forall>g \<in> {..<maxGroups}. set (groupedEntities m g) \<subseteq> set (addresses m)))"
  by (auto simp: Manager_ok_def pointers_valid_def addresses_def map_of_eq_None_iff
           dest: weak_map_of_SomeI)

lemma through_groups:
  "through a f m = Inr m' \<Longrightarrow> groupedEntities m' = groupedEntities m"
  by (auto simp: through_def split: option.splits sum.splits)

lemma through_ok:
  assumes "Manager_ok m" and "through a f m = Inr m'"
  shows "Manager_ok m'"
  using assms(1) through_addresses [OF assms(2)] through_groups [OF assms(2)]
  by (simp add: Manager_ok_iff)

lemma addresses_groupedEntities [simp]:
  "addresses (m\<lparr>groupedEntities := G\<rparr>) = addresses m"
  by (simp add: addresses_def)

text \<open>\<open>addToGroup\<close> keeps the pointers valid when it is given a valid one.\<close>

lemma addToGroup_ok:
  assumes "Manager_ok m" and "a \<in> set (addresses m)" and "addToGroup a g m = Inr m'"
  shows "Manager_ok m'"
  using assms by (auto simp: Manager_ok_iff addToGroup_def split: if_splits) blast+

lemma addGroup_ok:
  assumes "Manager_ok m" and "addGroup a g m = Inr m'"
  shows "Manager_ok m'"
proof -
  from assms(2) obtain m1 where
    m1: "through a (\<lambda>e. if g < maxGroups
                         then Inr (e\<lparr>groupBitSet := set_bit g (groupBitSet e)\<rparr>)
                         else Inl OutOfBounds) m = Inr m1"
    and m': "addToGroup a g m1 = Inr m'"
    by (auto simp: addGroup_def split: sum.splits)
  have ok1: "Manager_ok m1" by (rule through_ok [OF assms(1) m1])
  have "map_of (entities m) a \<noteq> None"
    using m1 by (auto simp: through_def split: option.splits)
  then have "a \<in> set (addresses m)"
    by (simp add: addresses_def map_of_eq_None_iff)
  then have "a \<in> set (addresses m1)"
    using through_addresses [OF m1] by simp
  from addToGroup_ok [OF ok1 this m'] show ?thesis .
qed

lemma Manager_update_ok:
  assumes "Manager_ok m" and "Manager_update X m = Inr (calls, m')"
  shows "Manager_ok m'"
proof -
  have "groupedEntities m' = groupedEntities m"
    using assms(2) by (auto simp: Manager_update_def split: sum.splits prod.splits)
  with assms(1) Manager_update_addresses [OF assms(2)] show ?thesis
    by (simp add: Manager_ok_iff)
qed

lemma survives_in_filter:
  "survives m g a \<Longrightarrow> map_of (filter (\<lambda>(p, e). isActive e) (entities m)) a \<noteq> None"
proof -
  assume "survives m g a"
  then obtain e where e: "map_of (entities m) a = Some e" "isActive e"
    by (auto simp: survives_def split: option.splits)
  have "\<And>es. map_of es a = Some e \<Longrightarrow> isActive e \<Longrightarrow>
        map_of (filter (\<lambda>(p, e). isActive e) es) a \<noteq> None"
  proof -
    fix es show "map_of es a = Some e \<Longrightarrow> isActive e \<Longrightarrow>
        map_of (filter (\<lambda>(p, e). isActive e) es) a \<noteq> None"
      by (induction es) (auto split: if_splits)
  qed
  from this [OF e] show ?thesis .
qed

text \<open>
  After \<open>refresh\<close> every reference of every group index is to an entity of the primary
  collection that is active and in the group.
\<close>

lemma refresh_ok:
  assumes "Manager_ok m" and "refresh m = Inr m'"
  shows "Manager_ok m'"
proof -
  note r = refresh_Inr [OF assms(2)]
  have d: "distinct (map fst (entities m'))"
    using assms(1) by (simp add: r(1) Manager_ok_def distinct_map_filter)
  have "pointers_valid m'"
    unfolding pointers_valid_def
  proof (intro ballI)
    fix g a assume g: "g \<in> {..<maxGroups}" and a: "a \<in> set (groupedEntities m' g)"
    from g have "g < maxGroups" by simp
    with a r(2) have "survives m g a" by simp
    from survives_in_filter [OF this] show "map_of (entities m') a \<noteq> None"
      by (simp add: r(1))
  qed
  with d show ?thesis by (simp add: Manager_ok_def)
qed

end
